theory Spec2Isabelle
  imports Main "HOL-Library.AList"
begin

section \<open>JavaScript values used by the request parsing\<close>

text \<open>
  A JavaScript \<^verbatim>\<open>number\<close> as the page-number code sees it: \<^verbatim>\<open>parseInt\<close> yields either
  \<^verbatim>\<open>NaN\<close> or an integer. Strings are lists of 8-bit code units; integers are unbounded
  (the rounding of integers beyond \<open>2^53\<close> to doubles is not modelled, and \<open>-0\<close> is \<open>0\<close>).
\<close>

datatype jsnum = NaN | Num int

fun isNaN :: "jsnum \<Rightarrow> bool" where
  "isNaN NaN = True"
| "isNaN (Num _) = False"

text \<open>The comparison \<^verbatim>\<open>n > 0\<close>: false on \<^verbatim>\<open>NaN\<close>.\<close>

fun gt0 :: "jsnum \<Rightarrow> bool" where
  "gt0 NaN = False"
| "gt0 (Num i) = (0 < i)"

text \<open>The subtraction \<^verbatim>\<open>n - k\<close> with an integer \<open>k\<close>: \<^verbatim>\<open>NaN\<close> is absorbing.\<close>

fun minus_num :: "jsnum \<Rightarrow> int \<Rightarrow> jsnum" where
  "minus_num NaN k = NaN"
| "minus_num (Num i) k = Num (i - k)"

text \<open>
  White space and line terminators of ECMAScript among the code units below 256:
  TAB, LF, VT, FF, CR, SP and NBSP.
\<close>

definition isWhiteSpace :: "char \<Rightarrow> bool" where
  "isWhiteSpace c \<longleftrightarrow>
     c \<in> {CHR 0x09, CHR 0x0A, CHR 0x0B, CHR 0x0C, CHR 0x0D, CHR 0x20, CHR 0xA0}"

text \<open>\<^verbatim>\<open>String.prototype.trim\<close>.\<close>

definition trim :: "string \<Rightarrow> string" where
  "trim s = rev (dropWhile isWhiteSpace (rev (dropWhile isWhiteSpace s)))"

text \<open>
  \<^verbatim>\<open>String.prototype.split(sep)\<close> for a one-character separator: the pieces between the
  separators, empty pieces kept, so that the empty string splits into one empty piece.
\<close>

fun js_split :: "char \<Rightarrow> string \<Rightarrow> string list" where
  "js_split sep [] = [[]]"
| "js_split sep (c # cs) =
     (if c = sep then [] # js_split sep cs
      else (case js_split sep cs of
              [] \<Rightarrow> [[c]]
            | t # ts \<Rightarrow> (c # t) # ts))"

text \<open>The value of a character as a digit in radix \<open>R\<close> (\<open>R\<close> is 10 or 16 here).\<close>

definition digitValue :: "char \<Rightarrow> nat option" where
  "digitValue c =
     (let n = (of_char c :: nat) in
      if 48 \<le> n \<and> n \<le> 57 then Some (n - 48)
      else if 97 \<le> n \<and> n \<le> 122 then Some (n - 87)
      else if 65 \<le> n \<and> n \<le> 90 then Some (n - 55)
      else None)"

definition isRadixDigit :: "nat \<Rightarrow> char \<Rightarrow> bool" where
  "isRadixDigit R c = (case digitValue c of None \<Rightarrow> False | Some d \<Rightarrow> d < R)"

definition radixValue :: "nat \<Rightarrow> string \<Rightarrow> nat" where
  "radixValue R Z = foldl (\<lambda>acc c. acc * R + (case digitValue c of None \<Rightarrow> 0 | Some d \<Rightarrow> d)) 0 Z"

text \<open>
  \<^verbatim>\<open>parseInt(string)\<close> with no radix argument (ECMAScript 19.2.5): skip leading white
  space, read an optional sign, switch to radix 16 after a \<^verbatim>\<open>0x\<close> or \<^verbatim>\<open>0X\<close> prefix, read
  the longest run of digits; \<^verbatim>\<open>NaN\<close> when that run is empty.
\<close>

definition parseInt :: "string \<Rightarrow> jsnum" where
  "parseInt str =
     (let s = dropWhile isWhiteSpace str;
          negative = (case s of [] \<Rightarrow> False | c # _ \<Rightarrow> c = CHR ''-'');
          s1 = (case s of [] \<Rightarrow> [] | c # cs \<Rightarrow> if c = CHR ''+'' \<or> c = CHR ''-'' then cs else s);
          hex = (case s1 of a # b # _ \<Rightarrow> a = CHR ''0'' \<and> (b = CHR ''x'' \<or> b = CHR ''X'') | _ \<Rightarrow> False);
          R = (if hex then 16 else 10);
          s2 = (if hex then drop 2 s1 else s1);
          Z = takeWhile (isRadixDigit R) s2
      in if Z = [] then NaN
         else Num ((if negative then - 1 else 1) * int (radixValue R Z)))"

section \<open>Parsing the pages to delete\<close>

text \<open>
  The API server (\<^verbatim>\<open>server.ts\<close>): split at the commas, trim and parse every token; nothing
  is filtered.
\<close>

definition processPagesToDelete :: "string \<Rightarrow> jsnum list" where
  "processPagesToDelete pagesToDelete =
     map (\<lambda>num. parseInt (trim num)) (js_split CHR '','' pagesToDelete)"

text \<open>
  The web page (\<^verbatim>\<open>index.tsx\<close>): the empty string gives no pages, and the parsed tokens
  that are \<^verbatim>\<open>NaN\<close> or not positive are filtered out.
\<close>

definition processPagesToDelete_web :: "string \<Rightarrow> jsnum list" where
  "processPagesToDelete_web pagesToDelete =
     (if pagesToDelete = [] then []
      else filter (\<lambda>n. \<not> isNaN n \<and> gt0 n)
             (map (\<lambda>num. parseInt (trim num)) (js_split CHR '','' pagesToDelete)))"

text \<open>
  The \<^verbatim>\<open>/take_notes\<close> handler of the API server: a missing or empty \<^verbatim>\<open>pagesToDelete\<close>
  field gives the empty array, any other string goes through the server's parser.
\<close>

definition pagesToDeleteArray :: "string option \<Rightarrow> jsnum list" where
  "pagesToDeleteArray pagesToDelete =
     (case pagesToDelete of
        None \<Rightarrow> []
      | Some s \<Rightarrow> if s = [] then [] else processPagesToDelete s)"

section \<open>Errors, documents and the world outside\<close>

text \<open>
  An exception is a value. \<open>Thrown msg\<close> is \<^verbatim>\<open>new Error(msg)\<close> created at a throw site
  of the code itself; \<open>External msg\<close> is whatever a collaborator (library, file system,
  network, database, language model) raised.
\<close>

datatype error = Thrown string | External string

text \<open>Truthiness of an environment variable: unset and the empty string are falsy.\<close>

fun truthy :: "string option \<Rightarrow> bool" where
  "truthy None = False"
| "truthy (Some s) = (s \<noteq> [])"

type_synonym buffer = "nat list"

type_synonym page = nat

record document =
  pageContent :: string
  metadata :: "(string \<times> string) list"

record ArxivPaperNote =
  noteText :: string
  pageNumbers :: "int list"

text \<open>
  A row of the papers table as \<^verbatim>\<open>addPaper\<close> writes it and \<^verbatim>\<open>getPaper\<close> reads it back:
  \<^verbatim>\<open>{paper, url, notes, name}\<close>. A column read back may be \<^verbatim>\<open>null\<close>.
\<close>

record paper_row =
  row_paper :: "string option"
  row_url :: string
  row_notes :: "ArxivPaperNote list option"
  row_name :: string

record QAResponse =
  answer :: string
  followupQuestions :: "string list"

record qa_row =
  qa_question :: string
  qa_answer :: string
  qa_context :: string
  qa_followupQuestions :: "string list"

text \<open>
  Every call of a collaborator is recorded with its arguments and whether it returned
  (\<open>True\<close>) or raised (\<open>False\<close>); so is every line written to the console.
\<close>

datatype call =
    DbConnect
  | GetPaper string
  | AddPaper paper_row
  | AddDocuments "document list"
  | SimilaritySearch string nat string
  | SaveQa qa_row
  | ReadFile string
  | HttpGet string nat
  | PdfLoad
  | PdfSave
  | WriteFile string
  | Unlink string
  | UnstructuredLoad string
  | PdfLoaderLoad string
  | NotesModel string
  | QaModel string string string

datatype event = Call call bool | Log string

type_synonym history = "event list"

text \<open>
  The collaborators. What each one answers may depend on everything that happened
  before (the history); a raised error is its message. \<open>unstructured_load\<close> answers
  \<open>None\<close> when the service has not settled within the 60 seconds of the race.
  \<open>settle_order\<close> is the order in which that many calls started together settle.
\<close>

record env =
  OPENAI_API_KEY :: "string option"
  UNSTRUCTURED_API_KEY :: "string option"
  random_name :: "history \<Rightarrow> string"
  fileURLToPath :: "string \<Rightarrow> string + string"
  fsReadFile :: "history \<Rightarrow> string \<Rightarrow> string + buffer"
  axios_get :: "history \<Rightarrow> string \<Rightarrow> nat \<Rightarrow> string + buffer"
  pdf_load :: "buffer \<Rightarrow> string + page list"
  pdf_save :: "page list \<Rightarrow> string + buffer"
  writeFile :: "history \<Rightarrow> string \<Rightarrow> buffer \<Rightarrow> string + unit"
  unlink :: "history \<Rightarrow> string \<Rightarrow> string + unit"
  unstructured_load :: "history \<Rightarrow> string \<Rightarrow> buffer \<Rightarrow> (string + document list) option"
  pdfLoader_load :: "history \<Rightarrow> string \<Rightarrow> buffer \<Rightarrow> string + document list"
  notes_chain :: "history \<Rightarrow> string \<Rightarrow> string + ArxivPaperNote list"
  qa_chain :: "history \<Rightarrow> string \<Rightarrow> string \<Rightarrow> string \<Rightarrow> string + QAResponse list"
  db_connect :: "history \<Rightarrow> string + unit"
  db_select_paper :: "history \<Rightarrow> string \<Rightarrow> string + unit"
  db_insert_paper :: "history \<Rightarrow> paper_row \<Rightarrow> string + unit"
  db_add_vectors :: "history \<Rightarrow> document list \<Rightarrow> string + unit"
  db_search :: "history \<Rightarrow> document list \<Rightarrow> string \<Rightarrow> nat \<Rightarrow> string \<Rightarrow> string + document list"
  db_insert_qa :: "history \<Rightarrow> qa_row \<Rightarrow> string + unit"
  settle_order :: "history \<Rightarrow> nat \<Rightarrow> nat list"

text \<open>The persisted state and the history of calls.\<close>

record world =
  papers :: "string \<rightharpoonup> paper_row"
  vectors :: "document list"
  qa_log :: "qa_row list"
  trace :: history

definition emit :: "event \<Rightarrow> world \<Rightarrow> world" where
  "emit e w = w\<lparr>trace := trace w @ [e]\<rparr>"

text \<open>A call of a collaborator: its outcome becomes a result, and the call is recorded.\<close>

definition perform :: "call \<Rightarrow> string + 'a \<Rightarrow> world \<Rightarrow> (error + 'a) \<times> world" where
  "perform c r w =
     (case r of
        Inl msg \<Rightarrow> (Inl (External msg), emit (Call c False) w)
      | Inr v \<Rightarrow> (Inr v, emit (Call c True) w))"

text \<open>The events a run added to the history.\<close>

definition new_events :: "world \<Rightarrow> world \<Rightarrow> event list" where
  "new_events w w' = drop (length (trace w)) (trace w')"

text \<open>What a collaborator raised, as an error of the program.\<close>

definition external :: "string + 'a \<Rightarrow> error + 'a" where
  "external r = (case r of Inl msg \<Rightarrow> Inl (External msg) | Inr v \<Rightarrow> Inr v)"

text \<open>\<^verbatim>\<open>Array.prototype.join\<close> on strings.\<close>

fun join :: "string \<Rightarrow> string list \<Rightarrow> string" where
  "join sep [] = []"
| "join sep [x] = x"
| "join sep (x # y # ys) = x @ sep @ join sep (y # ys)"

text \<open>
  \<^verbatim>\<open>formatDocumentsAsString\<close> of the langchain library: the page contents, joined by two
  line feeds.
\<close>

definition formatDocumentsAsString :: "document list \<Rightarrow> string" where
  "formatDocumentsAsString documents = join [CHR 0x0A, CHR 0x0A] (map pageContent documents)"

section \<open>The database\<close>

text \<open>
  The class \<^verbatim>\<open>SupabaseDatabase\<close> of \<^verbatim>\<open>database.js\<close> is not among the source files; its
  operations are modelled from the specification's PaperStore, VectorIndex and QA log.
  Whether an operation raises is up to the environment.
\<close>

text \<open>
  Modelled from the spec: \<^verbatim>\<open>SupabaseDatabase.fromExistingIndex\<close>, the connection to the
  store and to the vector index.
\<close>

definition fromExistingIndex :: "env \<Rightarrow> world \<Rightarrow> (error + unit) \<times> world" where
  "fromExistingIndex env w = perform DbConnect (db_connect env (trace w)) w"

text \<open>
  Modelled from the spec: \<^verbatim>\<open>getPaper\<close>, the existence lookup of the PaperStore; the
  Paper stored at the URL, or \<^verbatim>\<open>null\<close> (\<open>None\<close>) when there is none.
\<close>

definition getPaper :: "env \<Rightarrow> string \<Rightarrow> world \<Rightarrow> (error + paper_row option) \<times> world" where
  "getPaper env paperUrl w =
     (case perform (GetPaper paperUrl) (db_select_paper env (trace w) paperUrl) w of
        (Inl e, w1) \<Rightarrow> (Inl e, w1)
      | (Inr _, w1) \<Rightarrow> (Inr (papers w1 paperUrl), w1))"

text \<open>
  Modelled from the spec: \<^verbatim>\<open>addPaper\<close>; the PaperStore keeps one Paper record per URL,
  \<^verbatim>\<open>{url, name, paper, notes}\<close>, the last write winning.
\<close>

definition addPaper :: "env \<Rightarrow> paper_row \<Rightarrow> world \<Rightarrow> (error + unit) \<times> world" where
  "addPaper env row w =
     (case perform (AddPaper row) (db_insert_paper env (trace w) row) w of
        (Inl e, w1) \<Rightarrow> (Inl e, w1)
      | (Inr _, w1) \<Rightarrow> (Inr (), w1\<lparr>papers := (papers w1)(row_url row \<mapsto> row)\<rparr>))"

text \<open>
  Modelled from the spec: \<^verbatim>\<open>vectorStore.addDocuments\<close>; the VectorIndex gets one entry per
  text segment.
\<close>

definition addDocuments :: "env \<Rightarrow> document list \<Rightarrow> world \<Rightarrow> (error + unit) \<times> world" where
  "addDocuments env documents w =
     (case perform (AddDocuments documents) (db_add_vectors env (trace w) documents) w of
        (Inl e, w1) \<Rightarrow> (Inl e, w1)
      | (Inr _, w1) \<Rightarrow> (Inr (), w1\<lparr>vectors := vectors w1 @ documents\<rparr>))"

text \<open>
  Modelled from the spec: \<^verbatim>\<open>vectorStore.similaritySearch\<close>, up to \<open>k\<close> entries of the index
  scoped by the URL; which entries is up to the embedding, so the answer is the
  environment's.
\<close>

definition similaritySearch ::
  "env \<Rightarrow> string \<Rightarrow> nat \<Rightarrow> string \<Rightarrow> world \<Rightarrow> (error + document list) \<times> world" where
  "similaritySearch env query k filterUrl w =
     perform (SimilaritySearch query k filterUrl)
       (db_search env (trace w) (vectors w) query k filterUrl) w"

text \<open>
  Modelled from the spec: \<^verbatim>\<open>saveQa\<close>; a QA log entry
  \<^verbatim>\<open>{question, answer, context, followupQuestions}\<close> is appended, the log is append-only.
\<close>

definition saveQa ::
  "env \<Rightarrow> string \<Rightarrow> string \<Rightarrow> string \<Rightarrow> string list \<Rightarrow> world \<Rightarrow> (error + unit) \<times> world" where
  "saveQa env q a c f w =
     (let row = \<lparr>qa_question = q, qa_answer = a, qa_context = c, qa_followupQuestions = f\<rparr>
      in case perform (SaveQa row) (db_insert_qa env (trace w) row) w of
           (Inl e, w1) \<Rightarrow> (Inl e, w1)
         | (Inr _, w1) \<Rightarrow> (Inr (), w1\<lparr>qa_log := qa_log w1 @ [row]\<rparr>))"

section \<open>Taking notes (\<^verbatim>\<open>notes/index.ts\<close>)\<close>

subsection \<open>Fetching the PDF\<close>

definition startsWith :: "string \<Rightarrow> string \<Rightarrow> bool" where
  "startsWith s p = (take (length p) s = p)"

definition isAsciiLetter :: "char \<Rightarrow> bool" where
  "isAsciiLetter c =
     (let n = (of_char c :: nat) in (65 \<le> n \<and> n \<le> 90) \<or> (97 \<le> n \<and> n \<le> 122))"

definition toLowerAscii :: "char \<Rightarrow> char" where
  "toLowerAscii c =
     (let n = (of_char c :: nat) in if 65 \<le> n \<and> n \<le> 90 then char_of (n + 32) else c)"

text \<open>The regular expression \<^verbatim>\<open>/^[A-Za-z]:\\/\<close>: a letter, a colon, a backslash.\<close>

definition isDriveLetterPath :: "string \<Rightarrow> bool" where
  "isDriveLetterPath url =
     (case url of a # b # c # _ \<Rightarrow> isAsciiLetter a \<and> b = CHR '':'' \<and> c = CHR 0x5C | _ \<Rightarrow> False)"

definition looksLikeLocalPath :: "string \<Rightarrow> bool" where
  "looksLikeLocalPath url \<longleftrightarrow>
     isDriveLetterPath url \<or> startsWith url ''/'' \<or> CHR 0x5C \<in> set url"

text \<open>The regular expression \<^verbatim>\<open>/^https?:\/\//i\<close>.\<close>

definition isHttpUrl :: "string \<Rightarrow> bool" where
  "isHttpUrl url =
     (let l = map toLowerAscii url in startsWith l ''http://'' \<or> startsWith l ''https://'')"

text \<open>The body of the \<^verbatim>\<open>try\<close> block of \<^verbatim>\<open>loadPdfFromUrl\<close>.\<close>

definition loadPdfFromUrl_try :: "env \<Rightarrow> string \<Rightarrow> world \<Rightarrow> (error + buffer) \<times> world" where
  "loadPdfFromUrl_try env url w =
     (if startsWith url ''file://'' then
        (case fileURLToPath env url of
           Inl msg \<Rightarrow> (Inl (External msg), w)
         | Inr filePath \<Rightarrow> perform (ReadFile filePath) (fsReadFile env (trace w) filePath) w)
      else if looksLikeLocalPath url \<and> \<not> isHttpUrl url then
        perform (ReadFile url) (fsReadFile env (trace w) url) w
      else perform (HttpGet url 30000) (axios_get env (trace w) url 30000) w)"

definition loadPdfFromUrl :: "env \<Rightarrow> string \<Rightarrow> world \<Rightarrow> (error + buffer) \<times> world" where
  "loadPdfFromUrl env url w =
     (case loadPdfFromUrl_try env url w of
        (Inl err, w1) \<Rightarrow> (Inl (Thrown ''download_pdf_failed''), emit (Log ''Failed to load PDF:'') w1)
      | (Inr data, w1) \<Rightarrow> (Inr data, w1))"

subsection \<open>Deleting pages\<close>

text \<open>
  \<^verbatim>\<open>PDFDocument.removePage(index)\<close> of the pdf-lib library: it raises on an empty
  document, on an index that is not a number and on an index outside
  \<open>0 .. pageCount - 1\<close>; otherwise it removes the page at that 0-based index.
\<close>

definition removePage :: "jsnum \<Rightarrow> 'p list \<Rightarrow> error + 'p list" where
  "removePage index pdfDoc =
     (if pdfDoc = [] then Inl (External ''RemovePageFromEmptyDocumentError'')
      else case index of
             NaN \<Rightarrow> Inl (External ''index must be of type number'')
           | Num i \<Rightarrow>
               if i < 0 \<or> int (length pdfDoc) - 1 < i
               then Inl (External ''index out of range'')
               else Inr (take (nat i) pdfDoc @ drop (Suc (nat i)) pdfDoc))"

text \<open>The \<^verbatim>\<open>for\<close> loop of \<^verbatim>\<open>deletePagesFromPdf\<close>, with its counter \<^verbatim>\<open>numToOffsetBy\<close>.\<close>

fun removePages :: "jsnum list \<Rightarrow> int \<Rightarrow> 'p list \<Rightarrow> error + 'p list" where
  "removePages [] numToOffsetBy pdfDoc = Inr pdfDoc"
| "removePages (pageNumber # rest) numToOffsetBy pdfDoc =
     (case removePage (minus_num pageNumber numToOffsetBy) pdfDoc of
        Inl e \<Rightarrow> Inl e
      | Inr pdfDoc' \<Rightarrow> removePages rest (numToOffsetBy + 1) pdfDoc')"

definition deletePagesFromPdf ::
  "env \<Rightarrow> buffer \<Rightarrow> jsnum list \<Rightarrow> world \<Rightarrow> (error + buffer) \<times> world" where
  "deletePagesFromPdf env pdf pagesToDelete w =
     (case perform PdfLoad (pdf_load env pdf) w of
        (Inl e, w1) \<Rightarrow> (Inl e, w1)
      | (Inr pdfDoc, w1) \<Rightarrow>
          (case removePages pagesToDelete 1 pdfDoc of
             Inl e \<Rightarrow> (Inl e, w1)
           | Inr pdfDoc' \<Rightarrow> perform PdfSave (pdf_save env pdfDoc') w1))"

subsection \<open>Extracting the text\<close>

definition pdfPath :: "env \<Rightarrow> world \<Rightarrow> string" where
  "pdfPath env w = ''pdfs/'' @ random_name env (trace w) @ ''.pdf''"

text \<open>
  The first tier: \<open>Some docs\<close> when it returns the documents, \<open>None\<close> when the code falls
  through to the local parser (no key, or an error caught and logged). The removal of
  the staging file is inside the \<^verbatim>\<open>try\<close> block.
\<close>

definition unstructuredTier ::
  "env \<Rightarrow> string \<Rightarrow> buffer \<Rightarrow> world \<Rightarrow> document list option \<times> world" where
  "unstructuredTier env path pdf w =
     (if truthy (UNSTRUCTURED_API_KEY env) then
        (case unstructured_load env (trace w) path pdf of
           None \<Rightarrow>
             (None, emit (Log ''Unstructured parsing failed:'')
                      (emit (Call (UnstructuredLoad path) False) w))
         | Some r \<Rightarrow>
             (case perform (UnstructuredLoad path) r w of
                (Inl err, w1) \<Rightarrow> (None, emit (Log ''Unstructured parsing failed:'') w1)
              | (Inr docs, w1) \<Rightarrow>
                  (case perform (Unlink path) (unlink env (trace w1) path) w1 of
                     (Inl err, w2) \<Rightarrow> (None, emit (Log ''Unstructured parsing failed:'') w2)
                   | (Inr _, w2) \<Rightarrow> (Some docs, w2))))
      else (None, w))"

text \<open>The \<^verbatim>\<open>catch\<close> block of the fallback: log, remove the staging file whatever happens, throw.\<close>

definition localTier_catch :: "env \<Rightarrow> string \<Rightarrow> world \<Rightarrow> (error + document list) \<times> world" where
  "localTier_catch env path w =
     (let w1 = emit (Log ''Local PDF parsing failed:'') w;
          (_, w2) = perform (Unlink path) (unlink env (trace w1) path) w1
      in (Inl (Thrown ''pdf_parse_failed''), w2))"

definition localTier ::
  "env \<Rightarrow> string \<Rightarrow> buffer \<Rightarrow> world \<Rightarrow> (error + document list) \<times> world" where
  "localTier env path pdf w =
     (case perform (PdfLoaderLoad path) (pdfLoader_load env (trace w) path pdf) w of
        (Inl err, w1) \<Rightarrow> localTier_catch env path w1
      | (Inr docs, w1) \<Rightarrow>
          (case perform (Unlink path) (unlink env (trace w1) path) w1 of
             (Inl err, w2) \<Rightarrow> localTier_catch env path w2
           | (Inr _, w2) \<Rightarrow> (Inr docs, w2)))"

definition convertPdfToDocuments ::
  "env \<Rightarrow> buffer \<Rightarrow> world \<Rightarrow> (error + document list) \<times> world" where
  "convertPdfToDocuments env pdf w =
     (let path = pdfPath env w in
      case perform (WriteFile path) (writeFile env (trace w) path pdf) w of
        (Inl e, w1) \<Rightarrow> (Inl e, w1)
      | (Inr _, w1) \<Rightarrow>
          (case unstructuredTier env path pdf w1 of
             (Some docs, w2) \<Rightarrow> (Inr docs, w2)
           | (None, w2) \<Rightarrow> localTier env path pdf w2))"

subsection \<open>Generating the notes\<close>

definition generateNotes ::
  "env \<Rightarrow> document list \<Rightarrow> world \<Rightarrow> (error + ArxivPaperNote list) \<times> world" where
  "generateNotes env documents w =
     (let documentsAsString = formatDocumentsAsString documents
      in perform (NotesModel documentsAsString)
           (notes_chain env (trace w) documentsAsString) w)"

subsection \<open>The pipeline\<close>

text \<open>The optional page deletion of \<^verbatim>\<open>takeNotes\<close>, with its \<^verbatim>\<open>try\<close>/\<^verbatim>\<open>catch\<close>.\<close>

definition editStep ::
  "env \<Rightarrow> buffer \<Rightarrow> jsnum list option \<Rightarrow> world \<Rightarrow> (error + buffer) \<times> world" where
  "editStep env pdfAsBuffer pagesToDelete w =
     (case pagesToDelete of
        None \<Rightarrow> (Inr pdfAsBuffer, w)
      | Some ps \<Rightarrow>
          if 0 < length ps then
            (case deletePagesFromPdf env pdfAsBuffer ps w of
               (Inl err, w1) \<Rightarrow>
                 (Inl (Thrown ''pdf_edit_failed''), emit (Log ''PDF page deletion failed:'') w1)
             | (Inr edited, w1) \<Rightarrow> (Inr edited, w1))
          else (Inr pdfAsBuffer, w))"

text \<open>
  The end of \<^verbatim>\<open>takeNotes\<close>: tag the documents with the URL, save the paper, then index
  the documents; only the save is fatal.
\<close>

definition saveAndIndex ::
  "env \<Rightarrow> string \<Rightarrow> string \<Rightarrow> document list \<Rightarrow> ArxivPaperNote list \<Rightarrow> world
     \<Rightarrow> (error + ArxivPaperNote list option) \<times> world" where
  "saveAndIndex env paperUrl name documents notes w =
     (let newDocs = map (\<lambda>doc. doc\<lparr>metadata := AList.update ''url'' paperUrl (metadata doc)\<rparr>)
                      documents
      in case addPaper env \<lparr>row_paper = Some (formatDocumentsAsString newDocs),
                            row_url = paperUrl, row_notes = Some notes, row_name = name\<rparr> w of
           (Inl err, w1) \<Rightarrow>
             (Inl (Thrown ''database_failed''), emit (Log ''Supabase save failed:'') w1)
         | (Inr _, w1) \<Rightarrow>
             (case addDocuments env newDocs w1 of
                (Inl err, w2) \<Rightarrow>
                  (Inr (Some notes), emit (Log ''Vector indexing skipped due to error:'') w2)
              | (Inr _, w2) \<Rightarrow> (Inr (Some notes), w2)))"

definition takeNotes ::
  "env \<Rightarrow> string \<Rightarrow> string \<Rightarrow> jsnum list option \<Rightarrow> world
     \<Rightarrow> (error + ArxivPaperNote list option) \<times> world" where
  "takeNotes env paperUrl name pagesToDelete w =
     (if \<not> truthy (OPENAI_API_KEY env) then (Inl (Thrown ''Missing OPENAI_API_KEY''), w)
      else
        case fromExistingIndex env w of
          (Inl e, w1) \<Rightarrow> (Inl e, w1)
        | (Inr _, w1) \<Rightarrow>
        (case getPaper env paperUrl w1 of
          (Inl e, w2) \<Rightarrow> (Inl e, w2)
        | (Inr (Some existingPaper), w2) \<Rightarrow> (Inr (row_notes existingPaper), w2)
        | (Inr None, w2) \<Rightarrow>
        (case loadPdfFromUrl env paperUrl w2 of
          (Inl err, w3) \<Rightarrow> (Inl err, w3)
        | (Inr pdfAsBuffer, w3) \<Rightarrow>
        (case editStep env pdfAsBuffer pagesToDelete w3 of
          (Inl err, w4) \<Rightarrow> (Inl err, w4)
        | (Inr edited, w4) \<Rightarrow>
        (case convertPdfToDocuments env edited w4 of
          (Inl err, w5) \<Rightarrow> (Inl err, w5)
        | (Inr documents, w5) \<Rightarrow>
        (case generateNotes env documents w5 of
          (Inl err, w6) \<Rightarrow>
            (Inl (Thrown ''openai_failed''), emit (Log ''OpenAI notes generation failed:'') w6)
        | (Inr notes, w6) \<Rightarrow> saveAndIndex env paperUrl name documents notes w6))))))"

section \<open>Answering questions (\<^verbatim>\<open>qa/index.ts\<close>)\<close>

text \<open>
  \<^verbatim>\<open>qaModel\<close>. Its guard \<^verbatim>\<open>!documents\<close> holds for \<^verbatim>\<open>null\<close> and \<^verbatim>\<open>undefined\<close> only (here
  \<open>None\<close>): every array, the empty one too, is truthy.
\<close>

definition qaModel ::
  "env \<Rightarrow> string \<Rightarrow> document list option \<Rightarrow> ArxivPaperNote list \<Rightarrow> world
     \<Rightarrow> (error + QAResponse list) \<times> world" where
  "qaModel env question documents notes w =
     (case documents of
        None \<Rightarrow> (Inl (Thrown ''No documents found''), w)
      | Some docs \<Rightarrow>
          (let documentsAsString = formatDocumentsAsString docs;
               notesAsString = join [CHR 0x0A] (map noteText notes)
           in perform (QaModel documentsAsString notesAsString question)
                (qa_chain env (trace w) documentsAsString notesAsString question) w))"

text \<open>The similarity search of \<^verbatim>\<open>qaOnPaper\<close>, with its \<^verbatim>\<open>try\<close>/\<^verbatim>\<open>catch\<close>.\<close>

definition retrieve :: "env \<Rightarrow> string \<Rightarrow> string \<Rightarrow> world \<Rightarrow> document list \<times> world" where
  "retrieve env question paperUrl w =
     (case similaritySearch env question 8 paperUrl w of
        (Inl err, w1) \<Rightarrow> ([], emit (Log ''Similarity search failed, will fall back:'') w1)
      | (Inr found, w1) \<Rightarrow> (found, w1))"

text \<open>The fallback of \<^verbatim>\<open>qaOnPaper\<close>: one synthetic document from the stored text, if there is any.\<close>

definition fallbackDocuments :: "document list \<Rightarrow> paper_row \<Rightarrow> document list" where
  "fallbackDocuments documents paper =
     (if length documents = 0 then
        (case row_paper paper of
           None \<Rightarrow> documents
         | Some text \<Rightarrow>
             if text \<noteq> [] then
               [\<lparr>pageContent = text, metadata = [(''source'', ''supabase-paper-fallback'')]\<rparr>]
             else documents)
      else documents)"

text \<open>
  \<^verbatim>\<open>Promise.all\<close> over the \<^verbatim>\<open>saveQa\<close> calls. Every call is started, one per answer, and
  the inserts run concurrently: the order in which they settle is the environment's
  (\<open>settle_order\<close>, made a permutation of the indices by \<open>settlement\<close>: the indices it
  names, then the others in the order of the answers). \<^verbatim>\<open>Promise.all\<close> rejects with the
  first rejection in time, that is the first failing insert in the order of settlement.
  Nothing cancels the inserts that are still in flight then: they run to their end, and
  what they do is part of the world the run leaves. A \<^verbatim>\<open>saveQa\<close> event is recorded when
  its insert settles.
\<close>

definition settlement :: "nat list \<Rightarrow> nat \<Rightarrow> nat list" where
  "settlement order n =
     (let named = remdups (filter (\<lambda>i. i < n) order)
      in named @ filter (\<lambda>i. i \<notin> set named) [0..<n])"

fun settleAll ::
  "env \<Rightarrow> string \<Rightarrow> string \<Rightarrow> QAResponse list \<Rightarrow> nat list \<Rightarrow> world
     \<Rightarrow> error option \<times> world" where
  "settleAll env question context answerAndQuestions [] w = (None, w)"
| "settleAll env question context answerAndQuestions (i # later) w =
     (let qa = answerAndQuestions ! i in
      case saveQa env question (answer qa) context (followupQuestions qa) w of
        (r, w1) \<Rightarrow>
          (case settleAll env question context answerAndQuestions later w1 of
             (r', w2) \<Rightarrow> ((case r of Inl e \<Rightarrow> Some e | Inr _ \<Rightarrow> r'), w2)))"

definition saveAll ::
  "env \<Rightarrow> string \<Rightarrow> string \<Rightarrow> QAResponse list \<Rightarrow> world \<Rightarrow> error option \<times> world" where
  "saveAll env question context answerAndQuestions w =
     settleAll env question context answerAndQuestions
       (settlement (settle_order env (trace w) (length answerAndQuestions))
          (length answerAndQuestions)) w"

text \<open>The end of \<^verbatim>\<open>qaOnPaper\<close>: ask the model, record every answer, return the answers.\<close>

definition answerAndSave ::
  "env \<Rightarrow> string \<Rightarrow> document list \<Rightarrow> ArxivPaperNote list \<Rightarrow> world
     \<Rightarrow> (error + QAResponse list) \<times> world" where
  "answerAndSave env question documents notes w =
     (case qaModel env question (Some documents) notes w of
        (Inl e, w1) \<Rightarrow> (Inl e, w1)
      | (Inr answerAndQuestions, w1) \<Rightarrow>
          (case saveAll env question (formatDocumentsAsString documents) answerAndQuestions w1 of
             (Some e, w2) \<Rightarrow> (Inl e, w2)
           | (None, w2) \<Rightarrow> (Inr answerAndQuestions, w2)))"

definition qaOnPaper ::
  "env \<Rightarrow> string \<Rightarrow> string \<Rightarrow> world \<Rightarrow> (error + QAResponse list) \<times> world" where
  "qaOnPaper env question paperUrl w =
     (case fromExistingIndex env w of
        (Inl e, w1) \<Rightarrow> (Inl e, w1)
      | (Inr _, w1) \<Rightarrow>
      (case retrieve env question paperUrl w1 of
        (documents, w2) \<Rightarrow>
      (case getPaper env paperUrl w2 of
        (Inl e, w3) \<Rightarrow> (Inl e, w3)
      | (Inr None, w3) \<Rightarrow> (Inl (Thrown ''No notes found''), w3)
      | (Inr (Some paper), w3) \<Rightarrow>
          (case row_notes paper of
             None \<Rightarrow> (Inl (Thrown ''No notes found''), w3)
           | Some notes \<Rightarrow>
               answerAndSave env question (fallbackDocuments documents paper) notes w3))))"

section \<open>Specification-side definitions\<close>

text \<open>
  The page-deletion algorithm in the words of the specification: the deletions are
  processed in the order given, and the \<open>i\<close>-th one (counting from 1) removes the page at
  index \<open>requestedPageNumber - i\<close> of the current document.
\<close>

definition deletions_in_order :: "jsnum list \<Rightarrow> 'p list \<Rightarrow> error + 'p list" where
  "deletions_in_order requested doc =
     fold (\<lambda>(i, requestedPageNumber) r.
             case r of
               Inl e \<Rightarrow> Inl e
             | Inr current \<Rightarrow> removePage (minus_num requestedPageNumber (int i)) current)
          (enumerate 1 requested) (Inr doc)"

text \<open>
  The events that write to the database, and those that do not (the quiet ones). A quiet
  step adds quiet events to the history and leaves the persisted state as it is.
\<close>

fun quiet :: "event \<Rightarrow> bool" where
  "quiet (Call (AddPaper _) _) = False"
| "quiet (Call (AddDocuments _) _) = False"
| "quiet (Call (SaveQa _) _) = False"
| "quiet _ = True"

definition quiet_step :: "world \<Rightarrow> world \<Rightarrow> bool" where
  "quiet_step w w' \<longleftrightarrow> (\<exists>evs. w' = w\<lparr>trace := trace w @ evs\<rparr> \<and> list_all quiet evs)"

text \<open>
  What \<^verbatim>\<open>takeNotes\<close> saves: the documents tagged with the URL, and the row of the paper.
\<close>

definition tagged :: "string \<Rightarrow> document list \<Rightarrow> document list" where
  "tagged paperUrl documents =
     map (\<lambda>doc. doc\<lparr>metadata := AList.update ''url'' paperUrl (metadata doc)\<rparr>) documents"

definition new_row :: "string \<Rightarrow> string \<Rightarrow> document list \<Rightarrow> ArxivPaperNote list \<Rightarrow> paper_row" where
  "new_row paperUrl name documents notes =
     \<lparr>row_paper = Some (formatDocumentsAsString (tagged paperUrl documents)),
      row_url = paperUrl, row_notes = Some notes, row_name = name\<rparr>"

text \<open>
  What \<^verbatim>\<open>qaOnPaper\<close> records for one answer, the synthetic segment of its fallback, and
  the events that are calls of \<^verbatim>\<open>saveQa\<close>.
\<close>

definition qa_record :: "string \<Rightarrow> string \<Rightarrow> QAResponse \<Rightarrow> qa_row" where
  "qa_record question context qa =
     \<lparr>qa_question = question, qa_answer = answer qa, qa_context = context,
      qa_followupQuestions = followupQuestions qa\<rparr>"

definition fallback_segment :: "string \<Rightarrow> document" where
  "fallback_segment text = \<lparr>pageContent = text, metadata = [(''source'', ''supabase-paper-fallback'')]\<rparr>"

fun is_save_qa :: "event \<Rightarrow> bool" where
  "is_save_qa (Call (SaveQa _) _) = True"
| "is_save_qa _ = False"

section \<open>A sample deployment\<close>

text \<open>
  Concrete collaborators, used to run the model: every call succeeds, no key for the
  Unstructured service, a PDF is the list of its pages, the store is empty (\<open>world0\<close>) or
  holds one paper at the URL \<open>u\<close> (\<open>world1\<close>).
\<close>

definition sample_notes :: "ArxivPaperNote list" where
  "sample_notes = [\<lparr>noteText = ''Introduces the method'', pageNumbers = [1, 2]\<rparr>]"

definition sample_answers :: "QAResponse list" where
  "sample_answers = [\<lparr>answer = ''A new method'', followupQuestions = [''How is it evaluated?'']\<rparr>]"

definition env0 :: env where
  "env0 = \<lparr>OPENAI_API_KEY = Some ''sk-test'', UNSTRUCTURED_API_KEY = None,
     random_name = (\<lambda>_. ''k3x9p''),
     fileURLToPath = (\<lambda>u. Inr (drop 7 u)),
     fsReadFile = (\<lambda>_ _. Inr [1, 2, 3]),
     axios_get = (\<lambda>_ _ _. Inr [1, 2, 3, 4, 5, 6, 7]),
     pdf_load = Inr, pdf_save = Inr,
     writeFile = (\<lambda>_ _ _. Inr ()),
     unlink = (\<lambda>_ _. Inr ()),
     unstructured_load = (\<lambda>_ _ _. None),
     pdfLoader_load = (\<lambda>_ p _. Inr [\<lparr>pageContent = ''Abstract'', metadata = [(''source'', p)]\<rparr>,
                                   \<lparr>pageContent = ''Method'', metadata = [(''source'', p)]\<rparr>]),
     notes_chain = (\<lambda>_ _. Inr sample_notes),
     qa_chain = (\<lambda>_ _ _ _. Inr sample_answers),
     db_connect = (\<lambda>_. Inr ()),
     db_select_paper = (\<lambda>_ _. Inr ()),
     db_insert_paper = (\<lambda>_ _. Inr ()),
     db_add_vectors = (\<lambda>_ _. Inr ()),
     db_search = (\<lambda>_ _ _ _ _. Inr []),
     db_insert_qa = (\<lambda>_ _. Inr ()),
     settle_order = (\<lambda>_ _. [])\<rparr>"

definition world0 :: world where
  "world0 = \<lparr>papers = Map.empty, vectors = [], qa_log = [], trace = []\<rparr>"

definition stored_row :: paper_row where
  "stored_row = \<lparr>row_paper = Some ''full text'', row_url = ''u'', row_notes = Some sample_notes, row_name = ''P''\<rparr>"

definition world1 :: world where
  "world1 = world0\<lparr>papers := [''u'' \<mapsto> stored_row]\<rparr>"

text \<open>
  Two answers, a database that refuses every insert with a message naming the answer,
  and inserts that settle in the reverse order of the answers.
\<close>

definition sample_answers2 :: "QAResponse list" where
  "sample_answers2 = [\<lparr>answer = ''First'', followupQuestions = []\<rparr>,
                      \<lparr>answer = ''Second'', followupQuestions = []\<rparr>]"

definition env_race :: env where
  "env_race = env0\<lparr>qa_chain := (\<lambda>_ _ _ _. Inr sample_answers2),
                   db_insert_qa := (\<lambda>_ row. Inl (''insert failed: '' @ qa_answer row)),
                   settle_order := (\<lambda>_ _. [1, 0])\<rparr>"

section \<open>Lemmas about the page-deletion loop\<close>

lemma fold_deletions_Inl:
  "fold (\<lambda>(i, p) r. case r of Inl e \<Rightarrow> Inl e | Inr cur \<Rightarrow> f i p cur) ips (Inl e) = Inl e"
  by (induction ips) auto

lemma removePages_fold:
  "removePages ps (int k) doc =
     fold (\<lambda>(i, p) r. case r of
                    Inl e \<Rightarrow> Inl e
                  | Inr cur \<Rightarrow> removePage (minus_num p (int i)) cur)
          (enumerate k ps) (Inr doc)"
proof (induction ps arbitrary: k doc)
  case Nil
  then show ?case by simp
next
  case (Cons p ps)
  have k: "int k + 1 = int (Suc k)" by simp
  show ?case
  proof (cases "removePage (minus_num p (int k)) doc")
    case (Inl e)
    then show ?thesis by (simp add: fold_deletions_Inl)
  next
    case (Inr d)
    with Cons.IH[of "Suc k" d] show ?thesis
      by (simp add: k del: of_nat_Suc)
  qed
qed

lemma removePages_in_order: "removePages ps 1 doc = deletions_in_order ps doc"
  using removePages_fold[of ps 1 doc] by (simp add: deletions_in_order_def)

text \<open>
  Why the offset grows: when the requested page numbers are ascending and within the
  original document, the loop deletes exactly the pages with these original numbers.
\<close>

lemma nths_cong_below:
  "(\<And>i. i < length xs \<Longrightarrow> i \<in> A \<longleftrightarrow> i \<in> B) \<Longrightarrow> nths xs A = nths xs B"
proof -
  assume h: "\<And>i. i < length xs \<Longrightarrow> i \<in> A \<longleftrightarrow> i \<in> B"
  have "filter (\<lambda>p. snd p \<in> A) (zip xs [0..<length xs]) = filter (\<lambda>p. snd p \<in> B) (zip xs [0..<length xs])"
    by (rule filter_cong[OF refl]) (auto dest!: set_zip_rightD simp: h)
  then show ?thesis by (simp add: nths_def)
qed

lemma removePages_ascending:
  assumes "sorted_wrt (<) ps"
      and "\<forall>p\<in>set ps. k \<le> p \<and> p - k < int (length doc)"
  shows "removePages (map Num ps) k doc = Inr (nths doc {i. int i + k \<notin> set ps})"
  using assms
proof (induction ps arbitrary: k doc)
  case Nil
  then show ?case by (simp add: nths_all)
next
  case (Cons p rest)
  define j where "j = nat (p - k)"
  have pk: "k \<le> p" and jlt: "j < length doc" and pj: "p = int j + k"
    using Cons.prems(2) by (auto simp: j_def)
  have gt: "\<forall>r\<in>set rest. p < r" using Cons.prems(1) by simp
  let ?doc' = "take j doc @ drop (Suc j) doc"
  have step: "removePage (minus_num (Num p) k) doc = Inr ?doc'"
    using jlt pk by (auto simp: removePage_def j_def)
  have len': "length ?doc' = length doc - 1" using jlt by simp
  have pre: "\<forall>r\<in>set rest. k + 1 \<le> r \<and> r - (k + 1) < int (length ?doc')"
  proof
    fix r assume r: "r \<in> set rest"
    then have "p < r" using gt by simp
    moreover have "r - k < int (length doc)" using Cons.prems(2) r by simp
    ultimately show "k + 1 \<le> r \<and> r - (k + 1) < int (length ?doc')"
      using pk jlt unfolding len' by linarith
  qed
  have srt: "sorted_wrt (<) rest" using Cons.prems(1) by simp
  have IH: "removePages (map Num rest) (k + 1) ?doc' = Inr (nths ?doc' {i. int i + (k + 1) \<notin> set rest})"
    by (rule Cons.IH[OF srt pre])
  have split_doc: "doc = take j doc @ [doc ! j] @ drop (Suc j) doc"
    using jlt by (simp add: id_take_nth_drop[symmetric])
  let ?A = "{i. int i + (k + 1) \<notin> set rest}"
  let ?B = "{i. int i + k \<notin> set (p # rest)}"
  have lt: "length (take j doc) = j" using jlt by simp
  have left: "nths (take j doc) ?A = nths (take j doc) ?B"
  proof (rule nths_cong_below)
    fix i assume "i < length (take j doc)"
    then have "i < j" by simp
    then have "int i + k < p" using pj by simp
    then have "int i + k \<notin> set (p # rest)" "int i + (k + 1) \<notin> set rest" using gt by auto
    then show "i \<in> ?A \<longleftrightarrow> i \<in> ?B" by simp
  qed
  have mid: "nths [doc ! j] {m. m + j \<in> ?B} = []"
    using pj by (simp add: nths_Cons add.commute)
  have right: "{m. m + j \<in> ?A} = {m. m + Suc j \<in> ?B}"
  proof (rule Collect_cong)
    fix m
    have ne: "int (m + Suc j) + k \<noteq> p" using pj by simp
    have eq: "int (m + j) + (k + 1) = int (m + Suc j) + k" by simp
    have "(m + j \<in> ?A) = (int (m + j) + (k + 1) \<notin> set rest)" by blast
    also have "\<dots> = (int (m + Suc j) + k \<notin> set rest)" unfolding eq ..
    also have "\<dots> = (int (m + Suc j) + k \<notin> set (p # rest))" using ne by auto
    also have "\<dots> = (m + Suc j \<in> ?B)" by blast
    finally show "(m + j \<in> ?A) = (m + Suc j \<in> ?B)" .
  qed
  have "nths ?doc' ?A = nths (take j doc) ?A @ nths (drop (Suc j) doc) {m. m + j \<in> ?A}"
    by (simp only: nths_append lt)
  also have "\<dots> = nths (take j doc) ?B @ nths [doc ! j] {m. m + j \<in> ?B}
                   @ nths (drop (Suc j) doc) {m. m + Suc j \<in> ?B}"
    by (simp only: left mid right append_Nil)
  also have "\<dots> = nths (take j doc @ [doc ! j] @ drop (Suc j) doc) ?B"
  proof -
    have "{m. m + length [doc ! j] + j \<in> ?B} = {m. m + Suc j \<in> ?B}" by simp
    then show ?thesis
      by (simp only: nths_append[of "take j doc"] nths_append[of "[doc ! j]"] lt mem_Collect_eq
          add.assoc Collect_mem_eq)
  qed
  also have "\<dots> = nths doc ?B" using split_doc by simp
  finally have "nths ?doc' ?A = nths doc ?B" .
  with step IH show ?case by simp
qed

lemma removePages_deletes_requested:
  assumes "sorted_wrt (<) ps" and "\<forall>p\<in>set ps. 1 \<le> p \<and> p \<le> int (length doc)"
  shows "removePages (map Num ps) 1 doc = Inr (nths doc {i. int i + 1 \<notin> set ps})"
  by (rule removePages_ascending) (use assms in auto)

section \<open>Lemmas about quiet steps\<close>

lemma quiet_step_refl: "quiet_step w w"
  unfolding quiet_step_def by (rule exI[of _ "[]"]) simp

lemma quiet_step_trans: "quiet_step w w1 \<Longrightarrow> quiet_step w1 w2 \<Longrightarrow> quiet_step w w2"
  unfolding quiet_step_def
proof -
  assume "\<exists>evs. w1 = w\<lparr>trace := trace w @ evs\<rparr> \<and> list_all quiet evs"
    and "\<exists>evs. w2 = w1\<lparr>trace := trace w1 @ evs\<rparr> \<and> list_all quiet evs"
  then obtain a b where a: "w1 = w\<lparr>trace := trace w @ a\<rparr>" "list_all quiet a"
    and b: "w2 = w1\<lparr>trace := trace w1 @ b\<rparr>" "list_all quiet b" by blast
  have "w2 = w\<lparr>trace := trace w @ (a @ b)\<rparr> \<and> list_all quiet (a @ b)"
    using a b by simp
  then show "\<exists>evs. w2 = w\<lparr>trace := trace w @ evs\<rparr> \<and> list_all quiet evs" by blast
qed

lemma quiet_step_emit: "quiet e \<Longrightarrow> quiet_step w (emit e w)"
  unfolding quiet_step_def emit_def by (rule exI[of _ "[e]"]) simp

lemma quiet_step_then_emit: "quiet_step w w1 \<Longrightarrow> quiet e \<Longrightarrow> quiet_step w (emit e w1)"
  by (blast intro: quiet_step_trans quiet_step_emit)

lemma quiet_step_after_emit: "quiet_step (emit e w) w1 \<Longrightarrow> quiet e \<Longrightarrow> quiet_step w w1"
  by (blast intro: quiet_step_trans quiet_step_emit)

lemma quiet_step_perform:
  "quiet (Call c True) \<Longrightarrow> quiet (Call c False) \<Longrightarrow> perform c r w = (x, w1) \<Longrightarrow> quiet_step w w1"
  by (auto simp: perform_def split: sum.splits intro: quiet_step_emit)

lemma quiet_step_frame:
  "quiet_step w w1 \<Longrightarrow> papers w1 = papers w \<and> vectors w1 = vectors w \<and> qa_log w1 = qa_log w"
  by (auto simp: quiet_step_def)

lemma quiet_step_events:
  "quiet_step w w1 \<Longrightarrow> trace w1 = trace w @ new_events w w1 \<and> list_all quiet (new_events w w1)"
  by (auto simp: quiet_step_def new_events_def)

lemma fromExistingIndex_quiet: "fromExistingIndex env w = (r, w1) \<Longrightarrow> quiet_step w w1"
  unfolding fromExistingIndex_def by (erule quiet_step_perform[rotated 2]) simp_all

lemma getPaper_quiet: "getPaper env u w = (r, w1) \<Longrightarrow> quiet_step w w1"
  by (auto simp: getPaper_def split: prod.splits sum.splits elim!: quiet_step_perform[rotated 2])

lemma getPaper_result: "getPaper env u w = (Inr p, w1) \<Longrightarrow> p = papers w u"
  by (auto simp: getPaper_def perform_def emit_def split: prod.splits sum.splits)

lemma similaritySearch_quiet: "similaritySearch env q k u w = (r, w1) \<Longrightarrow> quiet_step w w1"
  unfolding similaritySearch_def by (erule quiet_step_perform[rotated 2]) simp_all

lemma retrieve_quiet: "retrieve env q u w = (r, w1) \<Longrightarrow> quiet_step w w1"
  by (auto simp: retrieve_def split: prod.splits sum.splits
      dest!: similaritySearch_quiet intro: quiet_step_then_emit)

lemma loadPdfFromUrl_try_quiet: "loadPdfFromUrl_try env u w = (r, w1) \<Longrightarrow> quiet_step w w1"
  by (auto simp: loadPdfFromUrl_try_def quiet_step_refl split: if_splits sum.splits
      elim!: quiet_step_perform[rotated 2])

lemma loadPdfFromUrl_quiet: "loadPdfFromUrl env u w = (r, w1) \<Longrightarrow> quiet_step w w1"
  by (auto simp: loadPdfFromUrl_def split: prod.splits sum.splits
      dest!: loadPdfFromUrl_try_quiet intro: quiet_step_then_emit)

lemma deletePagesFromPdf_quiet: "deletePagesFromPdf env b ps w = (r, w1) \<Longrightarrow> quiet_step w w1"
  by (auto simp: deletePagesFromPdf_def split: prod.splits sum.splits
      intro: quiet_step_trans elim!: quiet_step_perform[rotated 2]
      dest!: quiet_step_perform[where c=PdfLoad, rotated 2])


lemma editStep_quiet: "editStep env b ps w = (r, w1) \<Longrightarrow> quiet_step w w1"
  by (auto simp: editStep_def quiet_step_refl split: option.splits if_splits prod.splits sum.splits
      dest!: deletePagesFromPdf_quiet intro: quiet_step_then_emit)

lemma unstructuredTier_quiet: "unstructuredTier env p b w = (r, w1) \<Longrightarrow> quiet_step w w1"
  by (auto simp: unstructuredTier_def quiet_step_refl perform_def
      split: option.splits if_splits prod.splits sum.splits
      intro!: quiet_step_then_emit quiet_step_emit)

lemma localTier_catch_quiet: "localTier_catch env p w = (r, w1) \<Longrightarrow> quiet_step w w1"
  by (auto simp: localTier_catch_def perform_def Let_def
      split: prod.splits sum.splits
      intro!: quiet_step_then_emit quiet_step_emit)

lemma localTier_quiet: "localTier env p b w = (r, w1) \<Longrightarrow> quiet_step w w1"
  by (auto simp: localTier_def perform_def
      split: prod.splits sum.splits dest!: localTier_catch_quiet quiet_step_after_emit
      intro!: quiet_step_then_emit quiet_step_emit)

lemma convertPdfToDocuments_quiet: "convertPdfToDocuments env b w = (r, w1) \<Longrightarrow> quiet_step w w1"
  by (auto simp: convertPdfToDocuments_def Let_def
      split: prod.splits sum.splits option.splits
      dest!: localTier_quiet unstructuredTier_quiet quiet_step_perform[where c="WriteFile p" for p, rotated 2]
      intro: quiet_step_trans)

lemma generateNotes_quiet: "generateNotes env d w = (r, w1) \<Longrightarrow> quiet_step w w1"
  by (auto simp: generateNotes_def Let_def elim!: quiet_step_perform[rotated 2])

lemma qaModel_quiet: "qaModel env q d n w = (r, w1) \<Longrightarrow> quiet_step w w1"
  by (auto simp: qaModel_def Let_def quiet_step_refl split: option.splits elim!: quiet_step_perform[rotated 2])


section \<open>Lemmas about \<^verbatim>\<open>takeNotes\<close>\<close>

text \<open>
  The end of the pipeline: either the save fails, and that is fatal, or the paper is
  saved and the indexing is attempted, and the notes are returned whatever it did.
\<close>

lemma saveAndIndex_cases:
  assumes "saveAndIndex env paperUrl name documents notes w = (res, w')"
  shows "(res = Inl (Thrown ''database_failed'')
           \<and> w' = w\<lparr>trace := trace w @ [Call (AddPaper (new_row paperUrl name documents notes)) False,
                                         Log ''Supabase save failed:'']\<rparr>)
       \<or> (res = Inr (Some notes)
           \<and> (\<exists>ok tail vs. list_all quiet tail
               \<and> w' = \<lparr>papers = (papers w)(paperUrl \<mapsto> new_row paperUrl name documents notes),
                        vectors = vs, qa_log = qa_log w,
                        trace = trace w @ [Call (AddPaper (new_row paperUrl name documents notes)) True,
                                           Call (AddDocuments (tagged paperUrl documents)) ok] @ tail\<rparr>))"
proof (cases "db_insert_paper env (trace w) (new_row paperUrl name documents notes)")
  case (Inl msg)
  with assms show ?thesis
    by (simp add: saveAndIndex_def addPaper_def perform_def emit_def Let_def
        tagged_def[symmetric] new_row_def[symmetric])
next
  case (Inr u)
  let ?row = "new_row paperUrl name documents notes"
  let ?w1 = "w\<lparr>papers := (papers w)(paperUrl \<mapsto> ?row), trace := trace w @ [Call (AddPaper ?row) True]\<rparr>"
  have saved: "addPaper env ?row w = (Inr (), ?w1)"
    using Inr by (simp add: addPaper_def perform_def emit_def new_row_def)
  show ?thesis
  proof (cases "db_add_vectors env (trace ?w1) (tagged paperUrl documents)")
    case (Inl msg)
    have "res = Inr (Some notes) \<and>
          w' = \<lparr>papers = (papers w)(paperUrl \<mapsto> ?row), vectors = vectors w,
                 qa_log = qa_log w,
                 trace = trace w @ [Call (AddPaper ?row) True,
                                    Call (AddDocuments (tagged paperUrl documents)) False]
                           @ [Log ''Vector indexing skipped due to error:'']\<rparr>"
      using assms saved Inl
      by (auto simp: saveAndIndex_def addDocuments_def perform_def emit_def Let_def
          tagged_def[symmetric] new_row_def[symmetric])
    moreover have "list_all quiet [Log ''Vector indexing skipped due to error:'']" by simp
    ultimately show ?thesis by blast
  next
    case (Inr u')
    have "res = Inr (Some notes) \<and>
          w' = \<lparr>papers = (papers w)(paperUrl \<mapsto> ?row),
                 vectors = vectors w @ tagged paperUrl documents, qa_log = qa_log w,
                 trace = trace w @ [Call (AddPaper ?row) True,
                                    Call (AddDocuments (tagged paperUrl documents)) True]
                           @ []\<rparr>"
      using assms saved Inr
      by (auto simp: saveAndIndex_def addDocuments_def perform_def emit_def Let_def
          tagged_def[symmetric] new_row_def[symmetric])
    moreover have "list_all quiet []" by simp
    ultimately show ?thesis by blast
  qed
qed

lemma takeNotes_cases:
  assumes run: "takeNotes env paperUrl name pagesToDelete w = (res, w')"
  shows "(quiet_step w w' \<and>
           ((\<exists>e. res = Inl e) \<or> (\<exists>existing. papers w paperUrl = Some existing \<and> res = Inr (row_notes existing))))
       \<or> (\<exists>w5 w6 documents notes. papers w paperUrl = None \<and> quiet_step w w5 \<and> quiet_step w5 w6
            \<and> generateNotes env documents w5 = (Inr notes, w6)
            \<and> saveAndIndex env paperUrl name documents notes w6 = (res, w'))"
proof (cases "truthy (OPENAI_API_KEY env)")
  case False
  with run show ?thesis by (auto simp: takeNotes_def quiet_step_refl)
next
  case key: True
  obtain r1 w1 where s1: "fromExistingIndex env w = (r1, w1)" by fastforce
  note q1 = fromExistingIndex_quiet[OF s1]
  show ?thesis
  proof (cases r1)
    case (Inl e)
    with run key s1 q1 show ?thesis by (auto simp: takeNotes_def)
  next
    case c1: (Inr u1)
    obtain r2 w2 where s2: "getPaper env paperUrl w1 = (r2, w2)" by fastforce
    note q2 = quiet_step_trans[OF q1 getPaper_quiet[OF s2]]
    show ?thesis
    proof (cases r2)
      case (Inl e)
      with run key s1 c1 s2 q2 show ?thesis by (auto simp: takeNotes_def)
    next
      case c2: (Inr found)
      have found: "found = papers w paperUrl"
        using getPaper_result[of env paperUrl w1 found w2] s2 c2 quiet_step_frame[OF q1] by simp
      show ?thesis
      proof (cases found)
        case (Some existing)
        have ex: "papers w paperUrl = Some existing" using found Some by simp
        have "getPaper env paperUrl w1 = (Inr (Some existing), w2)" using s2 c2 Some by simp
        with run key s1 c1 have "res = Inr (row_notes existing) \<and> w' = w2"
          by (auto simp: takeNotes_def)
        with q2 ex show ?thesis by blast
      next
        case None
        have absent: "getPaper env paperUrl w1 = (Inr None, w2)" using s2 c2 None by simp
        obtain r3 w3 where s3: "loadPdfFromUrl env paperUrl w2 = (r3, w3)" by fastforce
        note q3 = quiet_step_trans[OF q2 loadPdfFromUrl_quiet[OF s3]]
        show ?thesis
        proof (cases r3)
          case (Inl e)
          with run key s1 c1 absent s3 q3 show ?thesis by (auto simp: takeNotes_def)
        next
          case c3: (Inr pdfAsBuffer)
          obtain r4 w4 where s4: "editStep env pdfAsBuffer pagesToDelete w3 = (r4, w4)" by fastforce
          note q4 = quiet_step_trans[OF q3 editStep_quiet[OF s4]]
          show ?thesis
          proof (cases r4)
            case (Inl e)
            with run key s1 c1 absent s3 c3 s4 q4 show ?thesis by (auto simp: takeNotes_def)
          next
            case c4: (Inr edited)
            obtain r5 w5 where s5: "convertPdfToDocuments env edited w4 = (r5, w5)" by fastforce
            note q5 = quiet_step_trans[OF q4 convertPdfToDocuments_quiet[OF s5]]
            show ?thesis
            proof (cases r5)
              case (Inl e)
              with run key s1 c1 absent s3 c3 s4 c4 s5 q5 show ?thesis
                by (auto simp: takeNotes_def)
            next
              case c5: (Inr documents)
              obtain r6 w6 where s6: "generateNotes env documents w5 = (r6, w6)" by fastforce
              note g6 = generateNotes_quiet[OF s6]
              show ?thesis
              proof (cases r6)
                case (Inl e)
                have "quiet_step w (emit (Log ''OpenAI notes generation failed:'') w6)"
                  by (rule quiet_step_then_emit[OF quiet_step_trans[OF q5 g6]]) simp
                with run key s1 c1 absent s3 c3 s4 c4 s5 c5 s6 Inl show ?thesis
                  by (auto simp: takeNotes_def)
              next
                case c6: (Inr ns)
                have "saveAndIndex env paperUrl name documents ns w6 = (res, w')"
                  using run key s1 c1 absent s3 c3 s4 c4 s5 c5 s6 c6
                  by (simp add: takeNotes_def)
                moreover have "papers w paperUrl = None" using found None by simp
                ultimately show ?thesis using q5 g6 s6 c6 by blast
              qed
            qed
          qed
        qed
      qed
    qed
  qed
qed


section \<open>Lemmas about \<^verbatim>\<open>qaOnPaper\<close>\<close>

lemma perform_error: "perform c r w = (Inl e, w1) \<Longrightarrow> \<exists>msg. e = External msg"
  by (auto simp: perform_def split: sum.splits)

lemma saveQa_step:
  "saveQa env q a c f w = (r, w1) \<Longrightarrow>
     trace w1 = trace w @ [Call (SaveQa \<lparr>qa_question = q, qa_answer = a, qa_context = c,
                                         qa_followupQuestions = f\<rparr>) (\<not> isl r)]
     \<and> (\<forall>e. r = Inl e \<longrightarrow>
           (\<exists>msg. e = External msg
                  \<and> db_insert_qa env (trace w) \<lparr>qa_question = q, qa_answer = a, qa_context = c,
                                                 qa_followupQuestions = f\<rparr> = Inl msg))"
  by (auto simp: saveQa_def perform_def emit_def Let_def split: sum.splits)

lemma settlement_permutes:
  "distinct (settlement order n) \<and> set (settlement order n) = {0..<n}"
  by (auto simp: settlement_def Let_def)

lemma settleAll_run:
  "settleAll env question context answers order w = (r, w1) \<Longrightarrow>
     \<exists>evs. trace w1 = trace w @ evs
       \<and> ((r = None
            \<and> evs = map (\<lambda>i. Call (SaveQa (qa_record question context (answers ! i))) True) order)
          \<or> (\<exists>pre row0 post msg.
                evs = pre @ Call (SaveQa row0) False # post
                \<and> (\<forall>x. Call (SaveQa x) False \<notin> set pre)
                \<and> db_insert_qa env (trace w @ pre) row0 = Inl msg
                \<and> r = Some (External msg)))"
proof (induction order arbitrary: w r w1)
  case Nil
  then show ?case by simp
next
  case (Cons i later)
  let ?row = "qa_record question context (answers ! i)"
  obtain r0 w0 where s0: "saveQa env question (answer (answers ! i)) context
                            (followupQuestions (answers ! i)) w = (r0, w0)"
    by fastforce
  obtain r' w' where s': "settleAll env question context answers later w0 = (r', w')"
    by fastforce
  from Cons.prems s0 s' have r: "r = (case r0 of Inl e \<Rightarrow> Some e | Inr _ \<Rightarrow> r')" and w1: "w1 = w'"
    by (auto simp: Let_def)
  from saveQa_step[OF s0] have
    t0: "trace w0 = trace w @ [Call (SaveQa ?row) (\<not> isl r0)]"
    and e0: "\<forall>e. r0 = Inl e \<longrightarrow> (\<exists>msg. e = External msg \<and> db_insert_qa env (trace w) ?row = Inl msg)"
    by (auto simp: qa_record_def)
  from Cons.IH[OF s'] obtain evs where
    t': "trace w' = trace w0 @ evs"
    and c': "(r' = None
              \<and> evs = map (\<lambda>i. Call (SaveQa (qa_record question context (answers ! i))) True) later)
          \<or> (\<exists>pre row0 post msg.
                evs = pre @ Call (SaveQa row0) False # post
                \<and> (\<forall>x. Call (SaveQa x) False \<notin> set pre)
                \<and> db_insert_qa env (trace w0 @ pre) row0 = Inl msg
                \<and> r' = Some (External msg))"
    by blast
  have t1: "trace w1 = trace w @ (Call (SaveQa ?row) (\<not> isl r0) # evs)"
    using t0 t' w1 by simp
  show ?case
  proof (cases r0)
    case (Inl e)
    with e0 obtain msg where m: "e = External msg" "db_insert_qa env (trace w) ?row = Inl msg"
      by blast
    have "Call (SaveQa ?row) (\<not> isl r0) # evs = [] @ Call (SaveQa ?row) False # evs"
      using Inl by simp
    moreover have "\<forall>x. Call (SaveQa x) False \<notin> set []" by simp
    moreover have "db_insert_qa env (trace w @ []) ?row = Inl msg" using m(2) by simp
    moreover have "r = Some (External msg)" using r Inl m(1) by simp
    ultimately show ?thesis using t1 by blast
  next
    case (Inr u)
    then have rr: "r = r'" using r by simp
    from c' show ?thesis
    proof (elim disjE conjE exE)
      assume "r' = None"
        and "evs = map (\<lambda>i. Call (SaveQa (qa_record question context (answers ! i))) True) later"
      then have "trace w1 = trace w @ (Call (SaveQa ?row) (\<not> isl r0) # evs)
          \<and> r = None
          \<and> Call (SaveQa ?row) (\<not> isl r0) # evs
              = map (\<lambda>i. Call (SaveQa (qa_record question context (answers ! i))) True) (i # later)"
        using rr Inr t1 by simp
      then show ?thesis by (intro exI[of _ "Call (SaveQa ?row) (\<not> isl r0) # evs"]) simp
    next
      fix pre row0 post msg
      assume ev: "evs = pre @ Call (SaveQa row0) False # post"
        and np: "\<forall>x. Call (SaveQa x) False \<notin> set pre"
        and db: "db_insert_qa env (trace w0 @ pre) row0 = Inl msg"
        and r': "r' = Some (External msg)"
      let ?pre = "Call (SaveQa ?row) True # pre"
      have "Call (SaveQa ?row) (\<not> isl r0) # evs = ?pre @ Call (SaveQa row0) False # post"
        using ev Inr by simp
      moreover have "\<forall>x. Call (SaveQa x) False \<notin> set ?pre" using np by simp
      moreover have "db_insert_qa env (trace w @ ?pre) row0 = Inl msg"
        using db t0 Inr by simp
      moreover have "r = Some (External msg)" using rr r' by simp
      ultimately show ?thesis using t1 by blast
    qed
  qed
qed

lemma qaOnPaper_cases:
  assumes run: "qaOnPaper env question paperUrl w = (res, w')"
  shows "(quiet_step w w' \<and> (\<exists>e. res = Inl e \<and> e \<noteq> Thrown ''No documents found''))
       \<or> (\<exists>w2 w3 documents paper ns.
             retrieve env question paperUrl (snd (fromExistingIndex env w)) = (documents, w2)
             \<and> quiet_step w w3 \<and> papers w paperUrl = Some paper \<and> row_notes paper = Some ns
             \<and> answerAndSave env question (fallbackDocuments documents paper) ns w3 = (res, w'))"
proof -
  obtain r1 w1 where s1: "fromExistingIndex env w = (r1, w1)" by fastforce
  note q1 = fromExistingIndex_quiet[OF s1]
  show ?thesis
  proof (cases r1)
    case (Inl e)
    moreover from s1 Inl have "\<exists>msg. e = External msg"
      unfolding fromExistingIndex_def by (auto dest: perform_error)
    ultimately show ?thesis using run s1 q1 by (auto simp: qaOnPaper_def)
  next
    case c1: (Inr u1)
    obtain documents w2 where s2: "retrieve env question paperUrl w1 = (documents, w2)" by fastforce
    note q2 = quiet_step_trans[OF q1 retrieve_quiet[OF s2]]
    obtain r3 w3 where s3: "getPaper env paperUrl w2 = (r3, w3)" by fastforce
    note q3 = quiet_step_trans[OF q2 getPaper_quiet[OF s3]]
    show ?thesis
    proof (cases r3)
      case (Inl e)
      moreover from s3 Inl have "\<exists>msg. e = External msg"
        by (auto simp: getPaper_def split: prod.splits sum.splits dest: perform_error)
      ultimately show ?thesis using run s1 c1 s2 s3 q3 by (auto simp: qaOnPaper_def)
    next
      case c3: (Inr found)
      have found: "found = papers w paperUrl"
        using getPaper_result[of env paperUrl w2 found w3] s3 c3 quiet_step_frame[OF q2] by simp
      show ?thesis
      proof (cases found)
        case None
        then have "getPaper env paperUrl w2 = (Inr None, w3)" using s3 c3 by simp
        with run s1 c1 s2 q3 show ?thesis by (auto simp: qaOnPaper_def)
      next
        case (Some paper)
        then have s3': "getPaper env paperUrl w2 = (Inr (Some paper), w3)" using s3 c3 by simp
        have stored: "papers w paperUrl = Some paper" using found Some by simp
        show ?thesis
        proof (cases "row_notes paper")
          case None
          with run s1 c1 s2 s3' q3 show ?thesis by (auto simp: qaOnPaper_def)
        next
          case (Some ns)
          with run s1 c1 s2 s3'
          have "answerAndSave env question (fallbackDocuments documents paper) ns w3 = (res, w')"
            by (simp add: qaOnPaper_def)
          with s1 s2 q3 stored Some show ?thesis by auto
        qed
      qed
    qed
  qed
qed


lemma quiet_not_save_qa: "list_all quiet evs \<Longrightarrow> filter is_save_qa evs = []"
proof (induction evs)
  case Nil
  then show ?case by simp
next
  case (Cons e evs)
  then have "quiet e" by simp
  then have "\<not> is_save_qa e" by (cases e rule: is_save_qa.cases) auto
  with Cons show ?case by simp
qed

lemma quiet_no_save: "list_all quiet evs \<Longrightarrow> Call (SaveQa row) ok \<notin> set evs"
  by (auto simp: list_all_iff)

lemma filter_save_map:
  "filter is_save_qa (map (\<lambda>i. Call (SaveQa (f i)) b) xs) = map (\<lambda>i. Call (SaveQa (f i)) b) xs"
  by (induction xs) auto

lemma answerAndSave_cases:
  assumes "answerAndSave env question documents ns w = (res, w')"
  shows "(\<exists>msg. res = Inl (External msg)
            \<and> trace w' = trace w @ [Call (QaModel (formatDocumentsAsString documents)
                                            (join [CHR 0x0A] (map noteText ns)) question) False])
       \<or> (\<exists>answers evs.
            trace w' = trace w @ Call (QaModel (formatDocumentsAsString documents)
                                         (join [CHR 0x0A] (map noteText ns)) question) True # evs
            \<and> ((res = Inr answers
                 \<and> (\<exists>order. distinct order \<and> set order = {0..<length answers}
                      \<and> evs = map (\<lambda>i. Call (SaveQa (qa_record question
                                     (formatDocumentsAsString documents) (answers ! i))) True) order))
               \<or> (\<exists>pre row0 post msg.
                     evs = pre @ Call (SaveQa row0) False # post
                     \<and> (\<forall>x. Call (SaveQa x) False \<notin> set pre)
                     \<and> db_insert_qa env
                          (trace w @ Call (QaModel (formatDocumentsAsString documents)
                                             (join [CHR 0x0A] (map noteText ns)) question) True # pre)
                          row0 = Inl msg
                     \<and> res = Inl (External msg))))"
proof -
  let ?ctx = "formatDocumentsAsString documents"
  let ?ns = "join [CHR 0x0A] (map noteText ns)"
  show ?thesis
  proof (cases "qa_chain env (trace w) ?ctx ?ns question")
    case (Inl msg)
    with assms show ?thesis
      by (auto simp: answerAndSave_def qaModel_def perform_def emit_def Let_def)
  next
    case (Inr answers)
    let ?w1 = "emit (Call (QaModel ?ctx ?ns question) True) w"
    let ?order = "settlement (settle_order env (trace ?w1) (length answers)) (length answers)"
    have m: "qaModel env question (Some documents) ns w = (Inr answers, ?w1)"
      using Inr by (simp add: qaModel_def perform_def Let_def)
    obtain r w2 where s: "settleAll env question ?ctx answers ?order ?w1 = (r, w2)" by fastforce
    then have s': "saveAll env question ?ctx answers ?w1 = (r, w2)" by (simp add: saveAll_def)
    have res: "res = (case r of None \<Rightarrow> Inr answers | Some e \<Rightarrow> Inl e)" and w': "w' = w2"
      using assms m s' by (auto simp: answerAndSave_def split: option.splits)
    have t1: "trace ?w1 = trace w @ [Call (QaModel ?ctx ?ns question) True]"
      by (simp add: emit_def)
    from settleAll_run[OF s] obtain evs where
      t2: "trace w2 = trace ?w1 @ evs"
      and c: "(r = None
               \<and> evs = map (\<lambda>i. Call (SaveQa (qa_record question ?ctx (answers ! i))) True) ?order)
          \<or> (\<exists>pre row0 post msg.
                evs = pre @ Call (SaveQa row0) False # post
                \<and> (\<forall>x. Call (SaveQa x) False \<notin> set pre)
                \<and> db_insert_qa env (trace ?w1 @ pre) row0 = Inl msg
                \<and> r = Some (External msg))"
      by blast
    have t: "trace w' = trace w @ Call (QaModel ?ctx ?ns question) True # evs"
      using t1 t2 w' by simp
    from c show ?thesis
    proof (elim disjE conjE exE)
      assume "r = None"
        and ev: "evs = map (\<lambda>i. Call (SaveQa (qa_record question ?ctx (answers ! i))) True) ?order"
      then have "res = Inr answers" using res by simp
      moreover have "distinct ?order \<and> set ?order = {0..<length answers}"
        by (rule settlement_permutes)
      ultimately show ?thesis using t ev by blast
    next
      fix pre row0 post msg
      assume ev: "evs = pre @ Call (SaveQa row0) False # post"
        and np: "\<forall>x. Call (SaveQa x) False \<notin> set pre"
        and db: "db_insert_qa env (trace ?w1 @ pre) row0 = Inl msg"
        and r: "r = Some (External msg)"
      have "res = Inl (External msg)" using res r by simp
      moreover have "db_insert_qa env (trace w @ Call (QaModel ?ctx ?ns question) True # pre) row0
                       = Inl msg"
        using db t1 by simp
      ultimately show ?thesis using t ev np by blast
    qed
  qed
qed

lemma answerAndSave_context:
  "formatDocumentsAsString documents = formatDocumentsAsString documents' \<Longrightarrow>
     answerAndSave env question documents ns w = answerAndSave env question documents' ns w"
  by (auto simp: answerAndSave_def qaModel_def Let_def split: prod.splits sum.splits option.splits)

lemma qaOnPaper_without_retrieval:
  assumes connect: "db_connect env (trace w) = Inr ()"
      and no_hits: "(\<exists>msg. db_search env (trace w @ [Call DbConnect True]) (vectors w) question 8 paperUrl = Inl msg)
                    \<or> db_search env (trace w @ [Call DbConnect True]) (vectors w) question 8 paperUrl = Inr []"
      and lookup: "\<forall>h. db_select_paper env h paperUrl = Inr ()"
      and stored: "papers w paperUrl = Some paper"
      and has_notes: "row_notes paper = Some ns"
  shows "\<exists>w3. quiet_step w w3
            \<and> qaOnPaper env question paperUrl w
                = answerAndSave env question (fallbackDocuments [] paper) ns w3"
proof -
  let ?w1 = "emit (Call DbConnect True) w"
  have s1: "fromExistingIndex env w = (Inr (), ?w1)"
    using connect by (simp add: fromExistingIndex_def perform_def)
  have "\<exists>w2. retrieve env question paperUrl ?w1 = ([], w2)"
    using no_hits
  proof (elim disjE exE)
    fix msg
    assume "db_search env (trace w @ [Call DbConnect True]) (vectors w) question 8 paperUrl = Inl msg"
    then show ?thesis
      by (simp add: retrieve_def similaritySearch_def perform_def emit_def)
  next
    assume "db_search env (trace w @ [Call DbConnect True]) (vectors w) question 8 paperUrl = Inr []"
    then show ?thesis
      by (simp add: retrieve_def similaritySearch_def perform_def emit_def)
  qed
  then obtain w2 where s2: "retrieve env question paperUrl ?w1 = ([], w2)" by blast
  have q2: "quiet_step w w2"
    using quiet_step_trans[OF fromExistingIndex_quiet[OF s1] retrieve_quiet[OF s2]] .
  let ?w3 = "emit (Call (GetPaper paperUrl) True) w2"
  have "papers w2 paperUrl = Some paper" using stored quiet_step_frame[OF q2] by simp
  then have s3: "getPaper env paperUrl w2 = (Inr (Some paper), ?w3)"
    using lookup by (simp add: getPaper_def perform_def emit_def)
  have q3: "quiet_step w ?w3" using q2 by (rule quiet_step_then_emit) simp
  have "qaOnPaper env question paperUrl w
          = answerAndSave env question (fallbackDocuments [] paper) ns ?w3"
    using s1 s2 s3 has_notes by (simp add: qaOnPaper_def)
  with q3 show ?thesis by blast
qed

lemma answerAndSave_invokes_model:
  assumes "quiet_step w w3"
  shows "\<exists>ok. Call (QaModel (formatDocumentsAsString documents) (join [CHR 0x0A] (map noteText ns)) question) ok
           \<in> set (new_events w (snd (answerAndSave env question documents ns w3)))"
proof -
  from assms obtain pre where pre: "trace w3 = trace w @ pre" by (auto simp: quiet_step_def)
  obtain res w' where run: "answerAndSave env question documents ns w3 = (res, w')" by fastforce
  from answerAndSave_cases[OF run] obtain ok rest where
    "trace w' = trace w3 @ Call (QaModel (formatDocumentsAsString documents)
                                  (join [CHR 0x0A] (map noteText ns)) question) ok # rest"
    by auto
  then have "new_events w w' = pre @ Call (QaModel (formatDocumentsAsString documents)
                                  (join [CHR 0x0A] (map noteText ns)) question) ok # rest"
    using pre by (simp add: new_events_def)
  then show ?thesis using run by auto
qed

lemma qaOnPaper_never_no_documents:
  "fst (qaOnPaper env question paperUrl w) \<noteq> Inl (Thrown ''No documents found'')"
proof -
  obtain res w' where run: "qaOnPaper env question paperUrl w = (res, w')" by fastforce
  from qaOnPaper_cases[OF run] consider
    (quiet) "\<exists>e. res = Inl e \<and> e \<noteq> Thrown ''No documents found''"
  | (answer) w3 documents ns where "answerAndSave env question documents ns w3 = (res, w')"
    by blast
  then have "res \<noteq> Inl (Thrown ''No documents found'')"
  proof cases
    case quiet
    then show ?thesis by auto
  next
    case answer
    from answerAndSave_cases[OF answer] show ?thesis by (auto split: if_splits)
  qed
  with run show ?thesis by simp
qed

section \<open>Unfolding the model\<close>

lemmas parse_defs = processPagesToDelete_def processPagesToDelete_web_def pagesToDeleteArray_def
  parseInt_def trim_def isWhiteSpace_def isRadixDigit_def digitValue_def radixValue_def

lemmas model_defs = takeNotes_def fromExistingIndex_def getPaper_def perform_def emit_def
  loadPdfFromUrl_def loadPdfFromUrl_try_def startsWith_def looksLikeLocalPath_def isDriveLetterPath_def isHttpUrl_def
  toLowerAscii_def isAsciiLetter_def editStep_def deletePagesFromPdf_def removePage_def
  convertPdfToDocuments_def pdfPath_def unstructuredTier_def localTier_def localTier_catch_def
  generateNotes_def formatDocumentsAsString_def saveAndIndex_def addPaper_def addDocuments_def
  qaOnPaper_def retrieve_def similaritySearch_def fallbackDocuments_def answerAndSave_def qaModel_def saveQa_def saveAll_def settlement_def
  new_events_def Let_def

lemmas sample_defs = env0_def world0_def world1_def stored_row_def sample_notes_def sample_answers_def

lemma fst_perform: "fst (perform c r w) = external r"
  by (simp add: perform_def external_def split: sum.splits)

lemma processPagesToDelete_web_filter:
  "processPagesToDelete_web s = filter gt0 (processPagesToDelete s)"
proof -
  have "(\<lambda>n. \<not> isNaN n \<and> gt0 n) = gt0"
  proof
    fix n show "(\<not> isNaN n \<and> gt0 n) = gt0 n" by (cases n) simp_all
  qed
  then show ?thesis
    by (simp add: parse_defs)
qed

lemma processPagesToDelete_web_positive:
  "n \<in> set (processPagesToDelete_web s) \<Longrightarrow> \<exists>i. n = Num i \<and> 0 < i"
  unfolding processPagesToDelete_web_filter by (cases n) auto

section \<open>The claims\<close>

subsection \<open>C1: parsing the pages to delete\<close>

text \<open>
  C1. The claim: parsing a \<^verbatim>\<open>pagesToDelete\<close> request string drops every non-numeric and
  every non-positive token, so that \<^verbatim>\<open>"1, x, -2, 4"\<close> parses to \<open>[1, 4]\<close>. The parser of the
  web page does that (\<open>processPagesToDelete_web_filter\<close>,
  \<open>processPagesToDelete_web_positive\<close>). The parser of the API server, the one the
  \<^verbatim>\<open>/take_notes\<close> handler calls on the request string, has no filter: on
  \<^verbatim>\<open>"1, x, -2, 4"\<close> it returns \<open>[1, NaN, -2, 4]\<close>, and \<^verbatim>\<open>takeNotes\<close> called with that array
  deletes the first page and then fails with \<^verbatim>\<open>pdf_edit_failed\<close>.
\<close>

theorem processPagesToDelete_keeps_invalid_tokens:
  "processPagesToDelete ''1, x, -2, 4'' = [Num 1, NaN, Num (- 2), Num 4]
   \<and> pagesToDeleteArray (Some ''1, x, -2, 4'') = [Num 1, NaN, Num (- 2), Num 4]
   \<and> processPagesToDelete_web ''1, x, -2, 4'' = [Num 1, Num 4]
   \<and> fst (takeNotes env0 ''u'' ''P'' (Some [Num 1, NaN, Num (- 2), Num 4]) world0)
       = Inl (Thrown ''pdf_edit_failed'')"
proof -
  have a: "processPagesToDelete ''1, x, -2, 4'' = [Num 1, NaN, Num (- 2), Num 4]"
    by (simp add: parse_defs)
  have b: "processPagesToDelete_web ''1, x, -2, 4'' = [Num 1, Num 4]"
    unfolding processPagesToDelete_web_filter a by simp
  have c: "pagesToDeleteArray (Some ''1, x, -2, 4'') = [Num 1, NaN, Num (- 2), Num 4]"
    unfolding pagesToDeleteArray_def using a by simp
  have d: "fst (takeNotes env0 ''u'' ''P'' (Some [Num 1, NaN, Num (- 2), Num 4]) world0)
       = Inl (Thrown ''pdf_edit_failed'')"
    by (simp add: model_defs sample_defs)
  from a b c d show ?thesis by simp
qed

subsection \<open>C2: ingesting a URL again\<close>

text \<open>
  C2, as stated: for every URL for which the store already holds a Paper, \<^verbatim>\<open>takeNotes\<close>
  returns that Paper's stored notes. The check of the OPENAI_API_KEY credential comes
  first: without the key \<^verbatim>\<open>takeNotes\<close> throws before it looks at the store, whatever the
  store holds.
\<close>

theorem takeNotes_without_key_counterexample:
  "papers world1 ''u'' = Some stored_row
   \<and> takeNotes (env0\<lparr>OPENAI_API_KEY := None\<rparr>) ''u'' ''P'' None world1
       = (Inl (Thrown ''Missing OPENAI_API_KEY''), world1)"
  by (simp add: takeNotes_def world1_def)

text \<open>
  C2, amended. When the OPENAI_API_KEY credential is set and the connection to the
  database and the lookup succeed, then for every URL for which the store already holds a
  Paper, \<^verbatim>\<open>takeNotes\<close> returns that Paper's stored notes; the connection and the lookup
  are its only calls (no fetch, no page deletion, no extraction, no note generation, no
  save, no indexing), and the store is left as it was.
\<close>

theorem takeNotes_idempotent:
  assumes key: "truthy (OPENAI_API_KEY env)"
      and connect: "db_connect env (trace w) = Inr ()"
      and lookup: "db_select_paper env (trace w @ [Call DbConnect True]) paperUrl = Inr ()"
      and stored: "papers w paperUrl = Some existingPaper"
  shows "takeNotes env paperUrl name pagesToDelete w
           = (Inr (row_notes existingPaper),
              w\<lparr>trace := trace w @ [Call DbConnect True, Call (GetPaper paperUrl) True]\<rparr>)"
  using assms
  by (simp add: takeNotes_def fromExistingIndex_def getPaper_def perform_def emit_def)

theorem takeNotes_idempotent_witness:
  "truthy (OPENAI_API_KEY env0)
   \<and> db_connect env0 (trace world1) = Inr ()
   \<and> db_select_paper env0 (trace world1 @ [Call DbConnect True]) ''u'' = Inr ()
   \<and> papers world1 ''u'' = Some stored_row
   \<and> takeNotes env0 ''u'' ''P'' (Some [Num 2]) world1
       = (Inr (Some sample_notes),
          world1\<lparr>trace := [Call DbConnect True, Call (GetPaper ''u'') True]\<rparr>)"
proof -
  have k: "truthy (OPENAI_API_KEY env0)" by (simp add: env0_def)
  have c: "db_connect env0 (trace world1) = Inr ()" by (simp add: env0_def)
  have l: "db_select_paper env0 (trace world1 @ [Call DbConnect True]) ''u'' = Inr ()"
    by (simp add: env0_def)
  have s: "papers world1 ''u'' = Some stored_row" by (simp add: world1_def)
  show ?thesis
    using k c l s takeNotes_idempotent[OF k c l s, of "''P''" "Some [Num 2]"]
    by (simp add: world1_def world0_def stored_row_def)
qed

subsection \<open>C3: the offset law of the page deletion\<close>

text \<open>
  C3, as stated, with its example: requesting \<open>[3, 5]\<close> would delete original page 3 and
  then original page 6. On a document of seven pages the code deletes the original pages
  3 and 5 and keeps page 6: the second deletion removes index \<open>5 - 2 = 3\<close> of the
  document that has already lost page 3, and that is original page 5.
\<close>

theorem delete_3_5_keeps_page_6_counterexample:
  "fst (deletePagesFromPdf env0 [1, 2, 3, 4, 5, 6, 7] [Num 3, Num 5] world0) = Inr [1, 2, 4, 6, 7]
   \<and> fst (deletePagesFromPdf env0 [1, 2, 3, 4, 5, 6, 7] [Num 3, Num 5] world0) \<noteq> Inr [1, 2, 4, 5, 7]"
  by (simp add: model_defs sample_defs)

text \<open>
  C3, amended. On every document that loads, \<^verbatim>\<open>deletePagesFromPdf\<close> processes the
  deletions in the order given, the \<open>i\<close>-th one (counting from 1) removing the page at index
  \<open>requestedPageNumber - i\<close> of the current, shrunken document, fails as soon as one of
  these indices is out of range, and saves the result; requesting \<open>[3, 5]\<close> on a document
  of at least five pages deletes original page 3 and then original page 5.
\<close>

theorem deletePagesFromPdf_offset_law:
  assumes "pdf_load env pdf = Inr doc"
  shows "fst (deletePagesFromPdf env pdf pagesToDelete w)
           = (case deletions_in_order pagesToDelete doc of
                Inl e \<Rightarrow> Inl e
              | Inr doc' \<Rightarrow> external (pdf_save env doc'))
         \<and> (5 \<le> length doc \<longrightarrow>
              fst (deletePagesFromPdf env pdf [Num 3, Num 5] w)
                = external (pdf_save env (take 2 doc @ [doc ! 3] @ drop 5 doc)))"
proof -
  have gen: "fst (deletePagesFromPdf env pdf ps w)
           = (case removePages ps 1 doc of
                Inl e \<Rightarrow> Inl e
              | Inr doc' \<Rightarrow> external (pdf_save env doc'))" for ps
    using assms
    by (simp add: deletePagesFromPdf_def perform_def external_def split: sum.splits)
  have ex: "removePages [Num 3, Num 5] 1 doc = Inr (take 2 doc @ [doc ! 3] @ drop 5 doc)"
    if "5 \<le> length doc"
  proof -
    from that obtain a b c d e r where "doc = a # b # c # d # e # r"
      by (auto simp: Suc_le_length_iff eval_nat_numeral)
    then show ?thesis
      by (simp add: removePage_def)
  qed
  show ?thesis
    using gen[of pagesToDelete] gen[of "[Num 3, Num 5]"] ex
    by (simp add: removePages_in_order)
qed

theorem deletePagesFromPdf_offset_law_witness:
  "pdf_load env0 [1, 2, 3, 4, 5, 6, 7] = Inr [1, 2, 3, 4, 5, 6, 7]
   \<and> fst (deletePagesFromPdf env0 [1, 2, 3, 4, 5, 6, 7] [Num 3, Num 5] world0)
       = Inr [1, 2, 4, 6, 7]
   \<and> deletions_in_order [Num 3, Num 5] [1, 2, 3, 4, 5, 6, 7 :: nat] = Inr [1, 2, 4, 6, 7]"
proof -
  have h: "pdf_load env0 [1, 2, 3, 4, 5, 6, 7] = Inr [1, 2, 3, 4, 5, 6, 7]"
    by (simp add: env0_def)
  have s: "pdf_save env0 = Inr" by (simp add: env0_def)
  show ?thesis
    using h deletePagesFromPdf_offset_law[OF h, of "[Num 3, Num 5]" world0]
    by (simp add: s external_def deletions_in_order_def removePage_def split: sum.splits)
qed

subsection \<open>C4: recording the answers\<close>

text \<open>
  C4, as stated: when the model call succeeds, a failure while persisting a QARecord is
  logged and does not prevent \<^verbatim>\<open>qaOnPaper\<close> from returning the answers. The
  \<^verbatim>\<open>Promise.all\<close> over the \<^verbatim>\<open>saveQa\<close> calls is awaited with no \<^verbatim>\<open>try\<close> around it: with a
  database that refuses the insert, the model answers, the insert fails, nothing is
  logged, and \<^verbatim>\<open>qaOnPaper\<close> rejects with the error of the insert.
\<close>

theorem qaOnPaper_persistence_failure_counterexample:
  "qaOnPaper (env0\<lparr>db_insert_qa := (\<lambda>_ _. Inl ''insert failed'')\<rparr>) ''what?'' ''u'' world1
     = (Inl (External ''insert failed''),
        world1\<lparr>trace := [Call DbConnect True, Call (SimilaritySearch ''what?'' 8 ''u'') True,
                        Call (GetPaper ''u'') True,
                        Call (QaModel ''full text'' ''Introduces the method'' ''what?'') True,
                        Call (SaveQa (qa_record ''what?'' ''full text'' (hd sample_answers))) False]\<rparr>)"
  by (simp add: model_defs sample_defs qa_record_def)

text \<open>
  C4, amended. A failure while persisting any resulting QARecord is not caught: whenever
  a \<^verbatim>\<open>saveQa\<close> call of a QA invocation fails, \<^verbatim>\<open>qaOnPaper\<close> rejects with the error that
  the first insert to fail raised (the first rejection in time), instead of returning the
  answers; it returns the answers only when one record per answer has been saved.
\<close>

theorem qaOnPaper_persistence_failure_is_fatal:
  assumes run: "qaOnPaper env question paperUrl w = (res, w')"
  shows "(\<forall>row. Call (SaveQa row) False \<in> set (new_events w w') \<longrightarrow>
            (\<exists>pre row0 post msg.
               new_events w w' = pre @ Call (SaveQa row0) False # post
               \<and> (\<forall>x. Call (SaveQa x) False \<notin> set pre)
               \<and> db_insert_qa env (trace w @ pre) row0 = Inl msg
               \<and> res = Inl (External msg)))
       \<and> (\<forall>answers. res = Inr answers \<longrightarrow>
            (\<exists>context order.
               distinct order \<and> set order = {0..<length answers}
               \<and> filter is_save_qa (new_events w w')
                   = map (\<lambda>i. Call (SaveQa (qa_record question context (answers ! i))) True) order))"
proof -
  from qaOnPaper_cases[OF run] consider
    (quiet) "quiet_step w w'" "\<exists>e. res = Inl e"
  | (answer) w3 documents ns where "quiet_step w w3"
      "answerAndSave env question documents ns w3 = (res, w')"
    by blast
  then show ?thesis
  proof cases
    case quiet
    from quiet_step_events[OF quiet(1)] have "list_all quiet (new_events w w')" by simp
    then have "\<And>row ok. Call (SaveQa row) ok \<notin> set (new_events w w')"
      by (rule quiet_no_save)
    with quiet(2) show ?thesis by auto
  next
    case answer
    from answer(1) obtain qpre where qpre: "trace w3 = trace w @ qpre" "list_all quiet qpre"
      by (auto simp: quiet_step_def)
    note nq = quiet_no_save[OF qpre(2)]
    let ?ctx = "formatDocumentsAsString documents"
    let ?qm = "\<lambda>ok. Call (QaModel ?ctx (join [CHR 0x0A] (map noteText ns)) question) ok"
    let ?sv = "\<lambda>answers i. Call (SaveQa (qa_record question ?ctx (answers ! i))) True"
    from answerAndSave_cases[OF answer(2)] show ?thesis
    proof (elim disjE conjE exE)
      fix msg assume r: "res = Inl (External msg)" and t: "trace w' = trace w3 @ [?qm False]"
      have ne: "new_events w w' = qpre @ [?qm False]" using qpre(1) t by (simp add: new_events_def)
      have "\<And>row ok. Call (SaveQa row) ok \<notin> set (new_events w w')"
        unfolding ne using nq by simp
      with r show ?thesis by auto
    next
      fix answers evs order
      assume t: "trace w' = trace w3 @ ?qm True # evs"
        and r: "res = Inr answers"
        and d: "distinct order" and so: "set order = {0..<length answers}"
        and ev: "evs = map (?sv answers) order"
      have ne: "new_events w w' = qpre @ ?qm True # map (?sv answers) order"
        using qpre(1) t ev by (simp add: new_events_def)
      have nofail: "\<And>row. Call (SaveQa row) False \<notin> set (new_events w w')"
        unfolding ne using nq by auto
      have fl: "filter is_save_qa (new_events w w') = map (?sv answers) order"
        unfolding ne using quiet_not_save_qa[OF qpre(2)]
          filter_save_map[of "\<lambda>i. qa_record question ?ctx (answers ! i)" True order]
        by simp
      have "\<exists>context order.
               distinct order \<and> set order = {0..<length as}
               \<and> filter is_save_qa (new_events w w')
                   = map (\<lambda>i. Call (SaveQa (qa_record question context (as ! i))) True) order"
        if "res = Inr as" for as
      proof -
        from that r have "as = answers" by simp
        with d so fl show ?thesis by blast
      qed
      with nofail show ?thesis by blast
    next
      fix answers evs pre row0 post msg
      assume t: "trace w' = trace w3 @ ?qm True # evs"
        and ev: "evs = pre @ Call (SaveQa row0) False # post"
        and np: "\<forall>x. Call (SaveQa x) False \<notin> set pre"
        and db: "db_insert_qa env (trace w3 @ ?qm True # pre) row0 = Inl msg"
        and r: "res = Inl (External msg)"
      let ?pre = "qpre @ ?qm True # pre"
      have ne: "new_events w w' = ?pre @ Call (SaveQa row0) False # post"
        using qpre(1) t ev by (simp add: new_events_def)
      have a: "\<forall>x. Call (SaveQa x) False \<notin> set ?pre" using np nq by simp
      have b: "db_insert_qa env (trace w @ ?pre) row0 = Inl msg" using db qpre(1) by simp
      from ne a b r have "\<exists>pre row0 post msg.
               new_events w w' = pre @ Call (SaveQa row0) False # post
               \<and> (\<forall>x. Call (SaveQa x) False \<notin> set pre)
               \<and> db_insert_qa env (trace w @ pre) row0 = Inl msg
               \<and> res = Inl (External msg)"
        by blast
      with r show ?thesis by simp
    qed
  qed
qed

theorem qaOnPaper_persistence_failure_is_fatal_witness:
  "Call (SaveQa (qa_record ''what?'' ''full text'' (sample_answers2 ! 0))) False
     \<in> set (new_events world1 (snd (qaOnPaper env_race ''what?'' ''u'' world1)))
   \<and> filter is_save_qa (new_events world1 (snd (qaOnPaper env_race ''what?'' ''u'' world1)))
       = [Call (SaveQa (qa_record ''what?'' ''full text'' (sample_answers2 ! 1))) False,
          Call (SaveQa (qa_record ''what?'' ''full text'' (sample_answers2 ! 0))) False]
   \<and> fst (qaOnPaper env_race ''what?'' ''u'' world1) = Inl (External ''insert failed: Second'')
   \<and> (\<exists>pre post. new_events world1 (snd (qaOnPaper env_race ''what?'' ''u'' world1))
                    = pre @ Call (SaveQa (qa_record ''what?'' ''full text'' (sample_answers2 ! 1))) False
                        # post
                  \<and> db_insert_qa env_race (trace world1 @ pre)
                        (qa_record ''what?'' ''full text'' (sample_answers2 ! 1))
                      = Inl ''insert failed: Second'')
   \<and> fst (qaOnPaper env0 ''what?'' ''u'' world1) = Inr sample_answers
   \<and> filter is_save_qa (new_events world1 (snd (qaOnPaper env0 ''what?'' ''u'' world1)))
       = [Call (SaveQa (qa_record ''what?'' ''full text'' (hd sample_answers))) True]"
proof -
  let ?run = "qaOnPaper env_race ''what?'' ''u'' world1"
  let ?r1 = "qa_record ''what?'' ''full text'' (sample_answers2 ! 1)"
  let ?r0 = "qa_record ''what?'' ''full text'' (sample_answers2 ! 0)"
  have tr: "new_events world1 (snd ?run)
      = [Call DbConnect True, Call (SimilaritySearch ''what?'' 8 ''u'') True,
         Call (GetPaper ''u'') True,
         Call (QaModel ''full text'' ''Introduces the method'' ''what?'') True,
         Call (SaveQa ?r1) False, Call (SaveQa ?r0) False]"
    by (simp add: model_defs sample_defs env_race_def sample_answers2_def qa_record_def)
  have rs: "fst ?run = Inl (External ''insert failed: Second'')"
    by (simp add: model_defs sample_defs env_race_def sample_answers2_def)
  have f: "Call (SaveQa ?r0) False \<in> set (new_events world1 (snd ?run))"
    unfolding tr by simp
  have fl: "filter is_save_qa (new_events world1 (snd ?run))
             = [Call (SaveQa ?r1) False, Call (SaveQa ?r0) False]"
    unfolding tr by simp
  have g: "fst (qaOnPaper env0 ''what?'' ''u'' world1) = Inr sample_answers"
    by (simp add: model_defs sample_defs)
  have h: "filter is_save_qa (new_events world1 (snd (qaOnPaper env0 ''what?'' ''u'' world1)))
       = [Call (SaveQa (qa_record ''what?'' ''full text'' (hd sample_answers))) True]"
    by (simp add: model_defs sample_defs qa_record_def)
  from qaOnPaper_persistence_failure_is_fatal[of env_race "''what?''" "''u''" world1,
      OF prod.collapse[symmetric]] f
  obtain pre row0 post msg where
    sp: "new_events world1 (snd ?run) = pre @ Call (SaveQa row0) False # post"
    and np: "\<forall>x. Call (SaveQa x) False \<notin> set pre"
    and db: "db_insert_qa env_race (trace world1 @ pre) row0 = Inl msg"
    and r: "fst ?run = Inl (External msg)"
    by blast
  from r rs have msg: "msg = ''insert failed: Second''" by simp
  have "Call (SaveQa ?r1) False \<in> set (new_events world1 (snd ?run))" unfolding tr by simp
  then have "Call (SaveQa ?r1) False \<in> set pre \<or> Call (SaveQa ?r1) False = Call (SaveQa row0) False
             \<or> Call (SaveQa ?r1) False \<in> set post"
    unfolding sp by auto
  moreover have "Call (SaveQa ?r1) False \<notin> set pre" using np by simp
  moreover have "Call (SaveQa ?r1) False \<notin> set post"
  proof
    assume in_post: "Call (SaveQa ?r1) False \<in> set post"
    have "db_insert_qa env_race (trace world1 @ pre) row0 = Inl (''insert failed: '' @ qa_answer row0)"
      by (simp add: env_race_def)
    with db msg have "qa_answer row0 = ''Second''" by simp
    moreover have "Call (SaveQa row0) False \<in> set (new_events world1 (snd ?run))"
      unfolding sp by simp
    ultimately have "row0 = ?r1"
      unfolding tr by (auto simp: qa_record_def sample_answers2_def)
    with in_post have "\<not> distinct (new_events world1 (snd ?run))"
      unfolding sp by simp
    then show False unfolding tr by (simp add: qa_record_def sample_answers2_def)
  qed
  ultimately have "row0 = ?r1" by simp
  with sp db msg have "\<exists>pre post. new_events world1 (snd ?run) = pre @ Call (SaveQa ?r1) False # post
                  \<and> db_insert_qa env_race (trace world1 @ pre) ?r1 = Inl ''insert failed: Second''"
    by blast
  with f fl rs g h show ?thesis by blast
qed

subsection \<open>C5: indexing is best effort\<close>

text \<open>
  C5. Every run of \<^verbatim>\<open>takeNotes\<close> writes to the database in one of three ways: not at all;
  one failed save of the paper, which is fatal (\<^verbatim>\<open>database_failed\<close>); or one successful save
  followed by one attempt to index the documents. In the last case the paper is in the
  store, and the result is the generated notes, whether the indexing succeeded
  (\<open>ok = True\<close>) or failed (\<open>ok = False\<close>). So a failure of the indexing after a successful
  save is not fatal, and no indexing is attempted before the paper is saved.
\<close>

theorem takeNotes_indexing_is_best_effort:
  assumes run: "takeNotes env paperUrl name pagesToDelete w = (res, w')"
  shows "\<exists>pre. list_all quiet pre \<and>
     (new_events w w' = pre
      \<or> (\<exists>row. new_events w w' = pre @ [Call (AddPaper row) False, Log ''Supabase save failed:'']
            \<and> res = Inl (Thrown ''database_failed''))
      \<or> (\<exists>row notes docs ok tail.
            new_events w w' = pre @ [Call (AddPaper row) True, Call (AddDocuments docs) ok] @ tail
            \<and> list_all quiet tail
            \<and> papers w' paperUrl = Some row \<and> row_notes row = Some notes
            \<and> (\<exists>documents wa wb. generateNotes env documents wa = (Inr notes, wb))
            \<and> res = Inr (Some notes)))"
proof -
  from takeNotes_cases[OF run] consider
    (quiet) "quiet_step w w'"
  | (save) w5 w6 documents ns where "quiet_step w w5" "quiet_step w5 w6"
      "generateNotes env documents w5 = (Inr ns, w6)"
      "saveAndIndex env paperUrl name documents ns w6 = (res, w')"
    by blast
  then show ?thesis
  proof cases
    case quiet
    then show ?thesis using quiet_step_events by blast
  next
    case save
    let ?row = "new_row paperUrl name documents ns"
    have q6: "quiet_step w w6" using save(1,2) by (rule quiet_step_trans)
    from q6 obtain pre where pre: "trace w6 = trace w @ pre" "list_all quiet pre"
      by (auto simp: quiet_step_def)
    from saveAndIndex_cases[OF save(4)] show ?thesis
    proof (elim disjE conjE exE)
      assume "res = Inl (Thrown ''database_failed'')"
        and "w' = w6\<lparr>trace := trace w6 @ [Call (AddPaper ?row) False, Log ''Supabase save failed:'']\<rparr>"
      then have "new_events w w' = pre @ [Call (AddPaper ?row) False, Log ''Supabase save failed:'']
                 \<and> res = Inl (Thrown ''database_failed'')"
        using pre(1) by (simp add: new_events_def)
      with pre(2) show ?thesis by blast
    next
      fix ok tail vs
      assume r: "res = Inr (Some ns)" and t: "list_all quiet tail"
        and w': "w' = \<lparr>papers = (papers w6)(paperUrl \<mapsto> ?row), vectors = vs, qa_log = qa_log w6,
                       trace = trace w6 @ [Call (AddPaper ?row) True,
                                           Call (AddDocuments (tagged paperUrl documents)) ok] @ tail\<rparr>"
      have "new_events w w' = pre @ [Call (AddPaper ?row) True,
                                       Call (AddDocuments (tagged paperUrl documents)) ok] @ tail"
        using pre(1) w' by (simp add: new_events_def)
      moreover have "papers w' paperUrl = Some ?row" using w' by simp
      moreover have "row_notes ?row = Some ns" by (simp add: new_row_def)
      ultimately show ?thesis using pre(2) t r save(3) by blast
    qed
  qed
qed

theorem takeNotes_indexing_is_best_effort_witness:
  "fst (takeNotes (env0\<lparr>db_add_vectors := (\<lambda>_ _. Inl ''quota exceeded'')\<rparr>) ''u'' ''P'' None world0)
     = Inr (Some sample_notes)
   \<and> drop 7 (new_events world0
        (snd (takeNotes (env0\<lparr>db_add_vectors := (\<lambda>_ _. Inl ''quota exceeded'')\<rparr>) ''u'' ''P'' None world0)))
     = [Call (AddPaper (new_row ''u'' ''P''
          [\<lparr>pageContent = ''Abstract'', metadata = [(''source'', ''pdfs/k3x9p.pdf'')]\<rparr>,
           \<lparr>pageContent = ''Method'', metadata = [(''source'', ''pdfs/k3x9p.pdf'')]\<rparr>] sample_notes)) True,
        Call (AddDocuments (tagged ''u''
          [\<lparr>pageContent = ''Abstract'', metadata = [(''source'', ''pdfs/k3x9p.pdf'')]\<rparr>,
           \<lparr>pageContent = ''Method'', metadata = [(''source'', ''pdfs/k3x9p.pdf'')]\<rparr>])) False,
        Log ''Vector indexing skipped due to error:'']"
  using takeNotes_indexing_is_best_effort[of "env0\<lparr>db_add_vectors := (\<lambda>_ _. Inl ''quota exceeded'')\<rparr>"
      "''u''" "''P''" None world0, OF prod.collapse[symmetric]]
  by (simp add: model_defs sample_defs new_row_def tagged_def)

subsection \<open>C6: answering without retrieved segments\<close>

text \<open>
  C6. For every QA invocation on a stored Paper, with its notes and its full text, and a
  database that connects and looks the paper up: if the similarity search throws or
  returns an empty result, \<^verbatim>\<open>qaOnPaper\<close> does not propagate the search error; its run is
  the run of the model call and of the recording on a single fallback segment built from
  the Paper's stored full text, and the model is invoked on that text. When the stored
  text is the empty string the code passes the empty list of documents instead of the
  segment: the documents reach the model and the log only through
  \<^verbatim>\<open>formatDocumentsAsString\<close>, which gives the empty string for both, so that the run is
  the same.
\<close>

theorem qaOnPaper_falls_back_to_full_text:
  assumes connect: "db_connect env (trace w) = Inr ()"
      and no_hits: "(\<exists>msg. db_search env (trace w @ [Call DbConnect True]) (vectors w) question 8 paperUrl = Inl msg)
                    \<or> db_search env (trace w @ [Call DbConnect True]) (vectors w) question 8 paperUrl = Inr []"
      and lookup: "\<forall>h. db_select_paper env h paperUrl = Inr ()"
      and stored: "papers w paperUrl = Some paper"
      and has_notes: "row_notes paper = Some ns"
      and has_text: "row_paper paper = Some text"
  shows "(\<exists>w3. quiet_step w w3
            \<and> qaOnPaper env question paperUrl w
                = answerAndSave env question [fallback_segment text] ns w3)
       \<and> (\<exists>ok. Call (QaModel text (join [CHR 0x0A] (map noteText ns)) question) ok
                \<in> set (new_events w (snd (qaOnPaper env question paperUrl w))))"
proof -
  have fmt: "formatDocumentsAsString [fallback_segment text] = text"
    by (simp add: formatDocumentsAsString_def fallback_segment_def)
  have "formatDocumentsAsString (fallbackDocuments [] paper) = text"
    using has_text by (simp add: fallbackDocuments_def formatDocumentsAsString_def)
  then have same: "answerAndSave env question (fallbackDocuments [] paper) ns w3
                     = answerAndSave env question [fallback_segment text] ns w3" for w3
    using fmt by (simp add: answerAndSave_context)
  from qaOnPaper_without_retrieval[OF connect no_hits lookup stored has_notes]
  obtain w3 where w3: "quiet_step w w3"
    "qaOnPaper env question paperUrl w = answerAndSave env question [fallback_segment text] ns w3"
    unfolding same by blast
  from answerAndSave_invokes_model[OF w3(1), where documents="[fallback_segment text]" and ns=ns
      and question=question and env=env] w3 fmt
  show ?thesis by auto
qed

theorem qaOnPaper_falls_back_to_full_text_witness:
  "db_connect (env0\<lparr>db_search := (\<lambda>_ _ _ _ _. Inl ''search failed'')\<rparr>) (trace world1) = Inr ()
   \<and> db_search (env0\<lparr>db_search := (\<lambda>_ _ _ _ _. Inl ''search failed'')\<rparr>)
        (trace world1 @ [Call DbConnect True]) (vectors world1) ''what?'' 8 ''u'' = Inl ''search failed''
   \<and> papers world1 ''u'' = Some stored_row
   \<and> fst (qaOnPaper (env0\<lparr>db_search := (\<lambda>_ _ _ _ _. Inl ''search failed'')\<rparr>) ''what?'' ''u'' world1)
       = Inr sample_answers
   \<and> Call (QaModel ''full text'' ''Introduces the method'' ''what?'') True
       \<in> set (new_events world1
            (snd (qaOnPaper (env0\<lparr>db_search := (\<lambda>_ _ _ _ _. Inl ''search failed'')\<rparr>) ''what?'' ''u'' world1)))"
proof -
  let ?env = "env0\<lparr>db_search := (\<lambda>_ _ _ _ _. Inl ''search failed'')\<rparr>"
  have c: "db_connect ?env (trace world1) = Inr ()" by (simp add: env0_def)
  have n: "(\<exists>msg. db_search ?env (trace world1 @ [Call DbConnect True]) (vectors world1) ''what?'' 8 ''u'' = Inl msg)
          \<or> db_search ?env (trace world1 @ [Call DbConnect True]) (vectors world1) ''what?'' 8 ''u'' = Inr []"
    by simp
  have l: "\<forall>h. db_select_paper ?env h ''u'' = Inr ()" by (simp add: env0_def)
  have s: "papers world1 ''u'' = Some stored_row" by (simp add: world1_def)
  have hn: "row_notes stored_row = Some sample_notes" by (simp add: stored_row_def)
  have ht: "row_paper stored_row = Some ''full text''" by (simp add: stored_row_def)
  from qaOnPaper_falls_back_to_full_text[OF c n l s hn ht]
  obtain ok where "Call (QaModel ''full text'' (join [CHR 0x0A] (map noteText sample_notes)) ''what?'') ok
       \<in> set (new_events world1 (snd (qaOnPaper ?env ''what?'' ''u'' world1)))" by blast
  moreover have "fst (qaOnPaper ?env ''what?'' ''u'' world1) = Inr sample_answers"
    by (simp add: model_defs sample_defs)
  moreover have "Call (QaModel ''full text'' ''Introduces the method'' ''what?'') True
       \<in> set (new_events world1 (snd (qaOnPaper ?env ''what?'' ''u'' world1)))"
    by (simp add: model_defs sample_defs)
  ultimately show ?thesis using c s by simp
qed

subsection \<open>C7: the notes of a persisted paper\<close>

text \<open>
  C7, as stated: a persisted Paper has a non-empty notes sequence, an empty generation
  result being treated as a failure. \<^verbatim>\<open>takeNotes\<close> has no such check: when the model
  returns no notes, the paper is saved with an empty notes sequence and the empty
  sequence is returned as success.
\<close>

theorem takeNotes_saves_empty_notes_counterexample:
  "(\<forall>h c. notes_chain (env0\<lparr>notes_chain := (\<lambda>_ _. Inr [])\<rparr>) h c = Inr [])
   \<and> fst (takeNotes (env0\<lparr>notes_chain := (\<lambda>_ _. Inr [])\<rparr>) ''u'' ''P'' None world0) = Inr (Some [])
   \<and> map_option row_notes
        (papers (snd (takeNotes (env0\<lparr>notes_chain := (\<lambda>_ _. Inr [])\<rparr>) ''u'' ''P'' None world0)) ''u'')
       = Some (Some [])"
  by (simp add: model_defs sample_defs)

text \<open>
  C7, amended. For every Paper that an ingestion persists, its notes sequence is exactly
  the sequence that note generation returned, empty or not, and the ingestion returns
  that sequence as success: an empty generation result is not treated as a failure.
\<close>

theorem takeNotes_persists_generated_notes:
  assumes run: "takeNotes env paperUrl name pagesToDelete w = (res, w')"
      and before: "papers w paperUrl = None"
      and after: "papers w' paperUrl = Some row"
  shows "\<exists>documents wa wb generated.
           generateNotes env documents wa = (Inr generated, wb)
           \<and> row = new_row paperUrl name documents generated
           \<and> row_notes row = Some generated
           \<and> res = Inr (Some generated)"
proof -
  from takeNotes_cases[OF run] consider
    (quiet) "quiet_step w w'"
  | (save) w5 w6 documents ns where "quiet_step w w5" "quiet_step w5 w6"
      "generateNotes env documents w5 = (Inr ns, w6)"
      "saveAndIndex env paperUrl name documents ns w6 = (res, w')"
    by blast
  then show ?thesis
  proof cases
    case quiet
    then have "papers w' = papers w" by (simp add: quiet_step_frame)
    with before after show ?thesis by simp
  next
    case save
    have p6: "papers w6 = papers w"
      using quiet_step_trans[OF save(1,2)] by (simp add: quiet_step_frame)
    from saveAndIndex_cases[OF save(4)] show ?thesis
    proof (elim disjE conjE exE)
      assume "w' = w6\<lparr>trace := trace w6 @ [Call (AddPaper (new_row paperUrl name documents ns)) False,
                                              Log ''Supabase save failed:'']\<rparr>"
      then have "papers w' = papers w" using p6 by simp
      with before after show ?thesis by simp
    next
      fix ok tail vs
      assume r: "res = Inr (Some ns)"
        and w': "w' = \<lparr>papers = (papers w6)(paperUrl \<mapsto> new_row paperUrl name documents ns),
                       vectors = vs, qa_log = qa_log w6,
                       trace = trace w6 @ [Call (AddPaper (new_row paperUrl name documents ns)) True,
                                           Call (AddDocuments (tagged paperUrl documents)) ok] @ tail\<rparr>"
      have "row = new_row paperUrl name documents ns" using w' after by simp
      moreover have "row_notes (new_row paperUrl name documents ns) = Some ns"
        by (simp add: new_row_def)
      ultimately show ?thesis using r save(3) by blast
    qed
  qed
qed

theorem takeNotes_persists_generated_notes_witness:
  "papers world0 ''u'' = None
   \<and> fst (takeNotes (env0\<lparr>notes_chain := (\<lambda>_ _. Inr [])\<rparr>) ''u'' ''P'' None world0) = Inr (Some [])
   \<and> (\<exists>row. papers (snd (takeNotes (env0\<lparr>notes_chain := (\<lambda>_ _. Inr [])\<rparr>) ''u'' ''P'' None world0)) ''u''
                = Some row \<and> row_notes row = Some [])"
proof -
  let ?env = "env0\<lparr>notes_chain := (\<lambda>_ _. Inr [])\<rparr>"
  let ?run = "takeNotes ?env ''u'' ''P'' None world0"
  have b: "papers world0 ''u'' = None" by (simp add: world0_def)
  have r: "fst ?run = Inr (Some [])" by (simp add: model_defs sample_defs)
  obtain row where a: "papers (snd ?run) ''u'' = Some row"
    by (simp add: model_defs sample_defs)
  from takeNotes_persists_generated_notes[OF prod.collapse[symmetric] b a]
  have "row_notes row = Some []" using r by auto
  with a b r show ?thesis by blast
qed

subsection \<open>C8: the two tiers of the extraction\<close>

text \<open>
  C8, as stated: extraction throws only when the local parser also fails, and succeeds
  via the local parser whenever that parser succeeds. The staging file is written before
  any tier runs and outside every \<^verbatim>\<open>try\<close>, and its removal after a successful local parse
  is inside the \<^verbatim>\<open>try\<close> of the fallback: when the removal fails, the documents the
  parser returned are dropped and \<^verbatim>\<open>pdf_parse_failed\<close> is thrown; when the staging file
  cannot be written, the error of the file system is thrown and no tier runs.
\<close>

theorem convertPdfToDocuments_cleanup_failure_counterexample:
  "\<not> truthy (UNSTRUCTURED_API_KEY env0)
   \<and> pdfLoader_load (env0\<lparr>unlink := (\<lambda>_ _. Inl ''EPERM'')\<rparr>)
        [Call (WriteFile ''pdfs/k3x9p.pdf'') True] ''pdfs/k3x9p.pdf'' [1, 2, 3]
       = Inr [\<lparr>pageContent = ''Abstract'', metadata = [(''source'', ''pdfs/k3x9p.pdf'')]\<rparr>,
              \<lparr>pageContent = ''Method'', metadata = [(''source'', ''pdfs/k3x9p.pdf'')]\<rparr>]
   \<and> convertPdfToDocuments (env0\<lparr>unlink := (\<lambda>_ _. Inl ''EPERM'')\<rparr>) [1, 2, 3] world0
       = (Inl (Thrown ''pdf_parse_failed''),
          world0\<lparr>trace := [Call (WriteFile ''pdfs/k3x9p.pdf'') True,
                          Call (PdfLoaderLoad ''pdfs/k3x9p.pdf'') True,
                          Call (Unlink ''pdfs/k3x9p.pdf'') False,
                          Log ''Local PDF parsing failed:'',
                          Call (Unlink ''pdfs/k3x9p.pdf'') False]\<rparr>)
   \<and> convertPdfToDocuments (env0\<lparr>writeFile := (\<lambda>_ _ _. Inl ''ENOENT'')\<rparr>) [1, 2, 3] world0
       = (Inl (External ''ENOENT''),
          world0\<lparr>trace := [Call (WriteFile ''pdfs/k3x9p.pdf'') False]\<rparr>)"
  by (simp add: model_defs sample_defs)

text \<open>
  C8, amended. Provided the staging file is written and its removal succeeds: extraction
  fails only with \<^verbatim>\<open>pdf_parse_failed\<close>, and only when the local parser has failed and the
  high-fidelity tier, if configured, has failed too; whenever the high-fidelity tier is
  unconfigured, errors or times out, the local parser is tried, and when that parser
  succeeds extraction succeeds with the documents it returned.
\<close>

theorem convertPdfToDocuments_fallback:
  assumes staged: "writeFile env (trace w) (pdfPath env w) pdf = Inr ()"
      and cleanup: "\<forall>h. unlink env h (pdfPath env w) = Inr ()"
      and run: "convertPdfToDocuments env pdf w = (res, w')"
  shows "(\<forall>e. res = Inl e \<longrightarrow>
            e = Thrown ''pdf_parse_failed''
            \<and> Call (PdfLoaderLoad (pdfPath env w)) False \<in> set (new_events w w')
            \<and> (truthy (UNSTRUCTURED_API_KEY env) \<longrightarrow>
                 Call (UnstructuredLoad (pdfPath env w)) False \<in> set (new_events w w')))
       \<and> (\<not> truthy (UNSTRUCTURED_API_KEY env)
            \<or> Call (UnstructuredLoad (pdfPath env w)) False \<in> set (new_events w w')
          \<longrightarrow> (\<exists>ok. Call (PdfLoaderLoad (pdfPath env w)) ok \<in> set (new_events w w')))
       \<and> (Call (PdfLoaderLoad (pdfPath env w)) True \<in> set (new_events w w')
          \<longrightarrow> (\<exists>docs h. pdfLoader_load env h (pdfPath env w) pdf = Inr docs \<and> res = Inr docs))"
  using assms
  by (auto simp: convertPdfToDocuments_def unstructuredTier_def localTier_def localTier_catch_def
        perform_def emit_def new_events_def Let_def
      split: if_splits option.splits sum.splits prod.splits)


theorem convertPdfToDocuments_fallback_witness:
  "writeFile (env0\<lparr>UNSTRUCTURED_API_KEY := Some ''key''\<rparr>) (trace world0)
      (pdfPath (env0\<lparr>UNSTRUCTURED_API_KEY := Some ''key''\<rparr>) world0) [1, 2, 3] = Inr ()
   \<and> unstructured_load (env0\<lparr>UNSTRUCTURED_API_KEY := Some ''key''\<rparr>)
        [Call (WriteFile ''pdfs/k3x9p.pdf'') True] ''pdfs/k3x9p.pdf'' [1, 2, 3] = None
   \<and> Call (UnstructuredLoad ''pdfs/k3x9p.pdf'') False
        \<in> set (new_events world0
             (snd (convertPdfToDocuments (env0\<lparr>UNSTRUCTURED_API_KEY := Some ''key''\<rparr>) [1, 2, 3] world0)))
   \<and> Call (PdfLoaderLoad ''pdfs/k3x9p.pdf'') True
        \<in> set (new_events world0
             (snd (convertPdfToDocuments (env0\<lparr>UNSTRUCTURED_API_KEY := Some ''key''\<rparr>) [1, 2, 3] world0)))
   \<and> (\<exists>docs. fst (convertPdfToDocuments (env0\<lparr>UNSTRUCTURED_API_KEY := Some ''key''\<rparr>) [1, 2, 3] world0)
                = Inr docs)"
proof -
  let ?env = "env0\<lparr>UNSTRUCTURED_API_KEY := Some ''key''\<rparr>"
  have p: "pdfPath ?env world0 = ''pdfs/k3x9p.pdf''" by (simp add: pdfPath_def sample_defs)
  have st: "writeFile ?env (trace world0) (pdfPath ?env world0) [1, 2, 3] = Inr ()"
    by (simp add: env0_def)
  have cl: "\<forall>h. unlink ?env h (pdfPath ?env world0) = Inr ()" by (simp add: env0_def)
  have to: "unstructured_load ?env [Call (WriteFile ''pdfs/k3x9p.pdf'') True] ''pdfs/k3x9p.pdf'' [1, 2, 3] = None"
    by (simp add: env0_def)
  have u: "Call (UnstructuredLoad ''pdfs/k3x9p.pdf'') False
        \<in> set (new_events world0 (snd (convertPdfToDocuments ?env [1, 2, 3] world0)))"
    by (simp add: model_defs sample_defs)
  have l: "Call (PdfLoaderLoad (pdfPath ?env world0)) True
        \<in> set (new_events world0 (snd (convertPdfToDocuments ?env [1, 2, 3] world0)))"
    by (simp add: model_defs sample_defs)
  from convertPdfToDocuments_fallback[OF st cl prod.collapse[symmetric]] l
  have "\<exists>docs. fst (convertPdfToDocuments ?env [1, 2, 3] world0) = Inr docs" by blast
  with st to u l show ?thesis unfolding p by blast
qed

subsection \<open>C9: where the PDF is fetched from\<close>

text \<open>
  C9, as stated: a URL that neither uses the file scheme nor matches an absolute
  local-path pattern is fetched by HTTP GET. The test \<^verbatim>\<open>looksLikeLocalPath\<close> has a third
  disjunct, \<^verbatim>\<open>url.includes("\\")\<close>: the relative path \<^verbatim>\<open>a\b\<close> has no drive letter and is
  not rooted, and it is read from the file system, with no HTTP request.
\<close>

theorem loadPdfFromUrl_backslash_counterexample:
  "\<not> startsWith [CHR ''a'', CHR 0x5C, CHR ''b''] ''file://''
   \<and> \<not> isDriveLetterPath [CHR ''a'', CHR 0x5C, CHR ''b'']
   \<and> \<not> startsWith [CHR ''a'', CHR 0x5C, CHR ''b''] ''/''
   \<and> \<not> isHttpUrl [CHR ''a'', CHR 0x5C, CHR ''b'']
   \<and> loadPdfFromUrl env0 [CHR ''a'', CHR 0x5C, CHR ''b''] world0
       = (Inr [1, 2, 3], world0\<lparr>trace := [Call (ReadFile [CHR ''a'', CHR 0x5C, CHR ''b'']) True]\<rparr>)"
  by (simp add: model_defs sample_defs)

text \<open>
  C9, amended. For every URL string, the fetcher reads directly from the file system when
  the URL starts with \<^verbatim>\<open>file://\<close>, or when it does not match \<^verbatim>\<open>http(s)://\<close> and has a
  drive-letter prefix, starts with a slash or contains a backslash; otherwise it issues a
  single HTTP GET with a timeout of 30 seconds. There is one attempt and no retry, and on
  any failure (of the conversion of a file URL to a path too) it logs and fails with
  \<^verbatim>\<open>download_pdf_failed\<close>.
\<close>

theorem loadPdfFromUrl_dispatch:
  assumes run: "loadPdfFromUrl env url w = (res, w')"
  shows "new_events w w'
           = (if startsWith url ''file://'' then
                (case fileURLToPath env url of
                   Inl msg \<Rightarrow> []
                 | Inr filePath \<Rightarrow> [Call (ReadFile filePath) (\<not> isl res)])
              else if (isDriveLetterPath url \<or> startsWith url ''/'' \<or> CHR 0x5C \<in> set url)
                      \<and> \<not> isHttpUrl url then [Call (ReadFile url) (\<not> isl res)]
              else [Call (HttpGet url 30000) (\<not> isl res)])
             @ (case res of Inl e \<Rightarrow> [Log ''Failed to load PDF:''] | Inr data \<Rightarrow> [])
       \<and> (\<forall>e. res = Inl e \<longrightarrow> e = Thrown ''download_pdf_failed'')"
  using run
  by (auto simp: loadPdfFromUrl_def loadPdfFromUrl_try_def looksLikeLocalPath_def
        perform_def emit_def new_events_def
      split: if_splits sum.splits prod.splits)

theorem loadPdfFromUrl_dispatch_witness:
  "loadPdfFromUrl (env0\<lparr>axios_get := (\<lambda>_ _ _. Inl ''timeout of 30000ms exceeded'')\<rparr>)
       ''https://arxiv.org/pdf/1'' world0
     = (Inl (Thrown ''download_pdf_failed''),
        world0\<lparr>trace := [Call (HttpGet ''https://arxiv.org/pdf/1'' 30000) False,
                        Log ''Failed to load PDF:'']\<rparr>)
   \<and> new_events world0 (snd (loadPdfFromUrl env0 ''file:///tmp/p.pdf'' world0))
       = [Call (ReadFile ''/tmp/p.pdf'') True]
   \<and> new_events world0 (snd (loadPdfFromUrl env0 ''/tmp/p.pdf'' world0))
       = [Call (ReadFile ''/tmp/p.pdf'') True]
   \<and> new_events world0 (snd (loadPdfFromUrl env0 ''https://arxiv.org/pdf/1'' world0))
       = [Call (HttpGet ''https://arxiv.org/pdf/1'' 30000) True]"
proof -
  let ?env = "env0\<lparr>axios_get := (\<lambda>_ _ _. Inl ''timeout of 30000ms exceeded'')\<rparr>"
  have a: "loadPdfFromUrl ?env ''https://arxiv.org/pdf/1'' world0
     = (Inl (Thrown ''download_pdf_failed''),
        world0\<lparr>trace := [Call (HttpGet ''https://arxiv.org/pdf/1'' 30000) False,
                        Log ''Failed to load PDF:'']\<rparr>)"
    by (simp add: model_defs sample_defs)
  have b: "new_events world0 (snd (loadPdfFromUrl env0 ''file:///tmp/p.pdf'' world0))
       = [Call (ReadFile ''/tmp/p.pdf'') True]"
    by (simp add: model_defs sample_defs)
  have c: "new_events world0 (snd (loadPdfFromUrl env0 ''/tmp/p.pdf'' world0))
       = [Call (ReadFile ''/tmp/p.pdf'') True]"
    by (simp add: model_defs sample_defs)
  have d: "new_events world0 (snd (loadPdfFromUrl env0 ''https://arxiv.org/pdf/1'' world0))
       = [Call (HttpGet ''https://arxiv.org/pdf/1'' 30000) True]"
    by (simp add: model_defs sample_defs)
  from loadPdfFromUrl_dispatch[OF a] a b c d show ?thesis by simp
qed

subsection \<open>C10: an empty list of segments reaches the model\<close>

text \<open>
  C10. For every QA invocation where the similarity search yields no segments (it throws
  or returns the empty list) and the stored Paper has notes but a missing or empty full
  text, \<^verbatim>\<open>qaOnPaper\<close> calls \<^verbatim>\<open>qaModel\<close> with the empty list of documents and the model is
  invoked with an empty context: it fails neither with \<^verbatim>\<open>No documents found\<close> nor with
  \<^verbatim>\<open>No notes found\<close>. The guard \<^verbatim>\<open>!documents\<close> of \<^verbatim>\<open>qaModel\<close> never fires under
  \<^verbatim>\<open>qaOnPaper\<close>, whatever the inputs: the argument is always an array, and arrays are
  truthy.
\<close>

theorem qaOnPaper_empty_segments_reach_the_model:
  assumes connect: "db_connect env (trace w) = Inr ()"
      and no_hits: "(\<exists>msg. db_search env (trace w @ [Call DbConnect True]) (vectors w) question 8 paperUrl = Inl msg)
                    \<or> db_search env (trace w @ [Call DbConnect True]) (vectors w) question 8 paperUrl = Inr []"
      and lookup: "\<forall>h. db_select_paper env h paperUrl = Inr ()"
      and stored: "papers w paperUrl = Some paper"
      and has_notes: "row_notes paper = Some ns"
      and no_text: "row_paper paper = None \<or> row_paper paper = Some []"
  shows "(\<exists>w3. quiet_step w w3
            \<and> qaOnPaper env question paperUrl w = answerAndSave env question [] ns w3)
       \<and> (\<exists>ok. Call (QaModel [] (join [CHR 0x0A] (map noteText ns)) question) ok
                \<in> set (new_events w (snd (qaOnPaper env question paperUrl w))))
       \<and> fst (qaOnPaper env question paperUrl w) \<noteq> Inl (Thrown ''No documents found'')
       \<and> fst (qaOnPaper env question paperUrl w) \<noteq> Inl (Thrown ''No notes found'')
       \<and> (\<forall>env' question' paperUrl' w0.
             fst (qaOnPaper env' question' paperUrl' w0) \<noteq> Inl (Thrown ''No documents found''))"
proof -
  have fb: "fallbackDocuments [] paper = []"
    using no_text by (auto simp: fallbackDocuments_def)
  from qaOnPaper_without_retrieval[OF connect no_hits lookup stored has_notes]
  obtain w3 where w3: "quiet_step w w3"
    "qaOnPaper env question paperUrl w = answerAndSave env question [] ns w3"
    unfolding fb by blast
  have fmt: "formatDocumentsAsString [] = []"
    by (simp add: formatDocumentsAsString_def)
  obtain res w' where run: "answerAndSave env question [] ns w3 = (res, w')" by fastforce
  from answerAndSave_cases[OF run] have "res \<noteq> Inl (Thrown ''No notes found'')"
    by (auto split: if_splits)
  with w3(2) run have nn: "fst (qaOnPaper env question paperUrl w) \<noteq> Inl (Thrown ''No notes found'')"
    by simp
  have a: "\<exists>w3. quiet_step w w3
            \<and> qaOnPaper env question paperUrl w = answerAndSave env question [] ns w3"
    using w3 by blast
  have b: "\<exists>ok. Call (QaModel [] (join [CHR 0x0A] (map noteText ns)) question) ok
                \<in> set (new_events w (snd (qaOnPaper env question paperUrl w)))"
    using answerAndSave_invokes_model[OF w3(1), where documents="[]" and ns=ns
      and question=question and env=env] w3(2) fmt by simp
  have c: "\<forall>env' question' paperUrl' w0.
             fst (qaOnPaper env' question' paperUrl' w0) \<noteq> Inl (Thrown ''No documents found'')"
    by (simp add: qaOnPaper_never_no_documents)
  from a b c nn show ?thesis by blast
qed

theorem qaOnPaper_empty_segments_reach_the_model_witness:
  "db_connect env0 (trace world0) = Inr ()
   \<and> db_search env0 (trace world0 @ [Call DbConnect True]) (vectors world0) ''what?'' 8 ''u'' = Inr []
   \<and> fst (qaOnPaper env0 ''what?'' ''u'' (world0\<lparr>papers := [''u'' \<mapsto> stored_row\<lparr>row_paper := None\<rparr>]\<rparr>))
       = Inr sample_answers
   \<and> Call (QaModel [] ''Introduces the method'' ''what?'') True
       \<in> set (new_events (world0\<lparr>papers := [''u'' \<mapsto> stored_row\<lparr>row_paper := None\<rparr>]\<rparr>)
            (snd (qaOnPaper env0 ''what?'' ''u'' (world0\<lparr>papers := [''u'' \<mapsto> stored_row\<lparr>row_paper := None\<rparr>]\<rparr>))))"
proof -
  let ?w = "world0\<lparr>papers := [''u'' \<mapsto> stored_row\<lparr>row_paper := None\<rparr>]\<rparr>"
  have c: "db_connect env0 (trace ?w) = Inr ()" by (simp add: env0_def)
  have n: "(\<exists>msg. db_search env0 (trace ?w @ [Call DbConnect True]) (vectors ?w) ''what?'' 8 ''u'' = Inl msg)
          \<or> db_search env0 (trace ?w @ [Call DbConnect True]) (vectors ?w) ''what?'' 8 ''u'' = Inr []"
    by (simp add: env0_def)
  have l: "\<forall>h. db_select_paper env0 h ''u'' = Inr ()" by (simp add: env0_def)
  have s: "papers ?w ''u'' = Some (stored_row\<lparr>row_paper := None\<rparr>)" by simp
  have hn: "row_notes (stored_row\<lparr>row_paper := None\<rparr>) = Some sample_notes" by (simp add: stored_row_def)
  have nt: "row_paper (stored_row\<lparr>row_paper := None\<rparr>) = None
            \<or> row_paper (stored_row\<lparr>row_paper := None\<rparr>) = Some []" by simp
  from qaOnPaper_empty_segments_reach_the_model[OF c n l s hn nt]
  have "fst (qaOnPaper env0 ''what?'' ''u'' ?w) \<noteq> Inl (Thrown ''No documents found'')" by blast
  moreover have "fst (qaOnPaper env0 ''what?'' ''u'' ?w) = Inr sample_answers"
    by (simp add: model_defs sample_defs)
  moreover have "Call (QaModel [] ''Introduces the method'' ''what?'') True
       \<in> set (new_events ?w (snd (qaOnPaper env0 ''what?'' ''u'' ?w)))"
    by (simp add: model_defs sample_defs)
  moreover have "db_connect env0 (trace world0) = Inr ()"
    "db_search env0 (trace world0 @ [Call DbConnect True]) (vectors world0) ''what?'' 8 ''u'' = Inr []"
    by (simp_all add: env0_def)
  ultimately show ?thesis by simp
qed

end
